theory Spec2Isabelle
  imports Complex_Main
begin

section \<open>Data model\<close>

text \<open>
  JavaScript numbers are modelled as mathematical reals (rounding is not modelled);
  the millisecond timestamps of \<^verbatim>\<open>Date.now()\<close> are integers. The one place where
  the source divides by a count that can be zero keeps the IEEE result explicit
  (\<open>jsnum\<close>).
\<close>

text \<open>\<^verbatim>\<open>src/types.ts\<close>: interface HandCursor.\<close>

record HandCursor =
  cursor_x :: real
  cursor_y :: real
  cursor_isPinching :: bool
  cursor_isVisible :: bool

text \<open>
  \<^verbatim>\<open>galleryState\<close> of CircularGallery.tsx. The fields \<^verbatim>\<open>itemWidth\<close>, \<^verbatim>\<open>padding\<close>,
  \<^verbatim>\<open>totalWidth\<close> and \<^verbatim>\<open>currentSpeed\<close> are never read or written by the frame
  routine and are left out.
\<close>

record galleryState =
  scrollCurrent :: real
  scrollTarget :: real
  activeIndex :: int
  isPinching :: bool
  lastPinchTime :: int

text \<open>One entry of \<^verbatim>\<open>meshStates\<close>.\<close>

record meshState =
  scale :: real
  zOffset :: real

text \<open>What the frame routine reads and writes of one OGL mesh.\<close>

record mesh =
  uHover :: real
  position_x :: real
  position_z :: real
  rotation_y :: real
  mesh_scale :: real

text \<open>Everything the frame routine mutates: the refs and the objects of its closure.\<close>

record gallery =
  gstate :: galleryState
  meshStates :: "meshState list"
  meshes :: "mesh list"
  scene_rotation_x :: real
  scene_rotation_z :: real
  ring_rotation_z :: real
  ring_uTime :: real
  ring_uSpeed :: real

text \<open>
  What one frame reads from outside: the timestamp passed by requestAnimationFrame,
  the latest cursor sample, \<^verbatim>\<open>Date.now()\<close>, the \<^verbatim>\<open>selectedIndex\<close> prop, and the
  outcome of the ray cast of the OGL library against the meshes (for each mesh index
  the distance at which the ray meets its bounds, if it does).
\<close>

record frameInput =
  frame_t :: real
  frame_cursor :: HandCursor
  frame_now :: int
  selectedIndex :: "int option"
  frame_hit :: "nat \<Rightarrow> real option"

text \<open>What one frame does to the outside: the callback and the two audio calls.\<close>

record effects =
  onItemSelect :: "int option"
  playSelectSound :: bool
  updateDrone :: real

datatype error = TypeError

datatype jsnum = Finite real | PosInfinity

section \<open>The frame routine of CircularGallery.tsx\<close>

text \<open>
  Step 1, lines 330-344: the scroll speed read from the cursor. \<^verbatim>\<open>Math.pow\<close> is only
  ever applied to a positive base here, where it is \<open>powr\<close>.
\<close>

definition targetSpeed :: "bool \<Rightarrow> HandCursor \<Rightarrow> real" where
  "targetSpeed isDetailOpen cursor =
     (if \<not> isDetailOpen \<and> cursor_isVisible cursor then
        (let x = cursor_x cursor; deadZone = 0.15; center = 0.5 in
         if x > center + deadZone then
           ((x - (center + deadZone)) / (0.5 - deadZone)) powr 0.6 * 0.2
         else if x < center - deadZone then
           - ((((center - deadZone) - x) / (0.5 - deadZone)) powr 0.6) * 0.2
         else 0)
      else 0)"

text \<open>Lines 333 and 346: the speed is accumulated into \<^verbatim>\<open>scrollTarget\<close>.\<close>

definition scrollLogic :: "bool \<Rightarrow> HandCursor \<Rightarrow> galleryState \<Rightarrow> galleryState" where
  "scrollLogic isDetailOpen cursor gs =
     (if \<not> isDetailOpen \<and> cursor_isVisible cursor then
        gs\<lparr>scrollTarget := scrollTarget gs + targetSpeed isDetailOpen cursor\<rparr>
      else gs)"

text \<open>Step 2, lines 350-362: the new scene rotation (x, z).\<close>

definition tiltLogic :: "HandCursor \<Rightarrow> real \<times> real \<Rightarrow> real \<times> real" where
  "tiltLogic cursor rot =
     (case rot of (rx, rz) \<Rightarrow>
        if cursor_isVisible cursor then
          (let targetRotationX = (cursor_y cursor - 0.5) * 1.5;
               targetRotationZ = (cursor_x cursor - 0.5) * (- 0.5)
           in (rx + (targetRotationX - rx) * 0.05, rz + (targetRotationZ - rz) * 0.05))
        else (rx + (0 - rx) * 0.05, rz + (0 - rz) * 0.05))"

text \<open>
  Step 4, lines 368-376. \<^verbatim>\<open>intersectBounds\<close> of the OGL library returns the meshes
  whose bounds the ray meets, nearest first; \<^verbatim>\<open>indexOf\<close> gives the position of the
  first of them in \<^verbatim>\<open>meshes\<close>.
\<close>

definition intersectBounds :: "(nat \<Rightarrow> real option) \<Rightarrow> nat \<Rightarrow> nat list" where
  "intersectBounds hit n =
     sort_key (\<lambda>i. case hit i of Some d \<Rightarrow> d | None \<Rightarrow> 0)
       (filter (\<lambda>i. hit i \<noteq> None) [0..<n])"

definition hoverLogic :: "HandCursor \<Rightarrow> bool \<Rightarrow> (nat \<Rightarrow> real option) \<Rightarrow> nat \<Rightarrow> int" where
  "hoverLogic cursor isDetailOpen hit n =
     (if cursor_isVisible cursor \<and> \<not> isDetailOpen \<and> \<not> cursor_isPinching cursor then
        (case intersectBounds hit n of [] \<Rightarrow> - 1 | h # _ \<Rightarrow> int h)
      else - 1)"

text \<open>Step 5, lines 379-391: the new state and the argument of the callback, if called.\<close>

definition isInPinchableArea :: "HandCursor \<Rightarrow> bool" where
  "isInPinchableArea cursor =
     (cursor_x cursor > 0.2 \<and> cursor_x cursor < 0.8 \<and> cursor_y cursor > 0.2 \<and> cursor_y cursor < 0.8)"

definition actionablePinch :: "HandCursor \<Rightarrow> bool" where
  "actionablePinch cursor =
     (cursor_isVisible cursor \<and> isInPinchableArea cursor \<and> cursor_isPinching cursor)"

definition pinchLogic :: "HandCursor \<Rightarrow> int \<Rightarrow> int \<Rightarrow> galleryState \<Rightarrow> galleryState \<times> int option" where
  "pinchLogic cursor now hoveredIndex gs =
     (if actionablePinch cursor then
        (if \<not> isPinching gs \<and> now - lastPinchTime gs > 1000 then
           (gs\<lparr>lastPinchTime := now, isPinching := True\<rparr>,
            Some (if hoveredIndex \<noteq> - 1 then hoveredIndex else activeIndex gs))
         else (gs\<lparr>isPinching := True\<rparr>, None))
      else (gs\<lparr>isPinching := False\<rparr>, None))"

text \<open>Line 318: \<^verbatim>\<open>(Math.PI * 2) / count\<close>; for a count of zero JavaScript gives Infinity.\<close>

definition angleStep :: "nat \<Rightarrow> jsnum" where
  "angleStep count = (if count = 0 then PosInfinity else Finite ((pi * 2) / real count))"

text \<open>\<^verbatim>\<open>Math.atan2(y, x)\<close> on the reals.\<close>

definition atan2 :: "real \<Rightarrow> real \<Rightarrow> real" where
  "atan2 y x =
     (if x > 0 then arctan (y / x)
      else if x < 0 then (if y \<ge> 0 then arctan (y / x) + pi else arctan (y / x) - pi)
      else if y > 0 then pi / 2
      else if y < 0 then - (pi / 2)
      else 0)"

definition radius :: real where
  "radius = 6"

text \<open>
  Lines 405-444: the body of \<^verbatim>\<open>meshes.forEach\<close> for index \<open>i\<close>, on the mesh states,
  the meshes and the active index. Reading \<^verbatim>\<open>mState.scale\<close> when \<^verbatim>\<open>meshStates\<close> has
  no entry \<open>i\<close> throws.
\<close>

definition positionMesh ::
  "int option \<Rightarrow> int \<Rightarrow> real \<Rightarrow> real \<Rightarrow> nat \<Rightarrow>
   meshState list \<times> mesh list \<times> int \<Rightarrow> error + (meshState list \<times> mesh list \<times> int)" where
  "positionMesh sel hoveredIndex step scrollCur i st =
     (case st of (mss, ms, act) \<Rightarrow>
        if i \<ge> length mss then Inl TypeError
        else
          (let mState = mss ! i;
               m = ms ! i;
               isSelected = (sel = Some (int i));
               isAnySelected = (sel \<noteq> None);
               isDetailOpen = (sel \<noteq> None);
               isHovered = (int i = hoveredIndex);
               targetScale = (if isSelected then 1.3 else if isAnySelected then 0.8
                              else if isHovered then 1.15 else 1.0);
               targetZOffset = (if isSelected then 2.5 else if isAnySelected then - 1.0
                                else if isHovered then 0.5 else 0);
               mState' = mState\<lparr>scale := scale mState + (targetScale - scale mState) * 0.1,
                                zOffset := zOffset mState + (targetZOffset - zOffset mState) * 0.1\<rparr>;
               currentHoverVal = uHover m;
               targetHoverVal = (if isHovered then 1.0 else 0.0);
               angle = (real i * step) - scrollCur;
               m' = m\<lparr>uHover := currentHoverVal + (targetHoverVal - currentHoverVal) * 0.1,
                      position_x := sin angle * radius,
                      position_z := (cos angle * radius - radius) + zOffset mState',
                      rotation_y := angle,
                      mesh_scale := scale mState'\<rparr>;
               normalizedAngle = atan2 (sin angle) (cos angle);
               act' = (if \<not> isDetailOpen \<and> \<bar>normalizedAngle\<bar> < step / 2 then int i else act)
           in Inr (mss[i := mState'], ms[i := m'], act')))"

text \<open>\<^verbatim>\<open>forEach\<close>: the body at each index in turn, stopping at the first throw.\<close>

fun forEachMesh ::
  "(nat \<Rightarrow> 'st \<Rightarrow> error + 'st) \<Rightarrow> nat list \<Rightarrow> 'st \<Rightarrow> error + 'st" where
  "forEachMesh f [] st = Inr st"
| "forEachMesh f (i # is) st =
     (case f i st of Inl e \<Rightarrow> Inl e | Inr st' \<Rightarrow> forEachMesh f is st')"

text \<open>
  Lines 404-445. The step is Infinity only for a count of zero, where \<^verbatim>\<open>meshes\<close> is
  empty and the loop has no iteration.
\<close>

definition positionMeshes ::
  "int option \<Rightarrow> int \<Rightarrow> jsnum \<Rightarrow> real \<Rightarrow>
   meshState list \<times> mesh list \<times> int \<Rightarrow> error + (meshState list \<times> mesh list \<times> int)" where
  "positionMeshes sel hoveredIndex step scrollCur st =
     (case step of
        PosInfinity \<Rightarrow> Inr st
      | Finite s \<Rightarrow>
          forEachMesh (positionMesh sel hoveredIndex s scrollCur)
            [0..<length (fst (snd st))] st)"

text \<open>Lines 322-448: one animation frame.\<close>

definition update :: "frameInput \<Rightarrow> gallery \<Rightarrow> error + (gallery \<times> effects)" where
  "update inp w =
     (let timeSeconds = frame_t inp * 0.001;
          isDetailOpen = (selectedIndex inp \<noteq> None);
          cursor = frame_cursor inp;
          speed = targetSpeed isDetailOpen cursor;
          gs1 = scrollLogic isDetailOpen cursor (gstate w);
          rot = tiltLogic cursor (scene_rotation_x w, scene_rotation_z w);
          hoveredIndex = hoverLogic cursor isDetailOpen (frame_hit inp) (length (meshes w));
          (gs2, fired) = pinchLogic cursor (frame_now inp) hoveredIndex gs1;
          gs3 = gs2\<lparr>scrollCurrent :=
                  scrollCurrent gs2 + (scrollTarget gs2 - scrollCurrent gs2) * 0.1\<rparr>
      in case positionMeshes (selectedIndex inp) hoveredIndex (angleStep (length (meshes w)))
                (scrollCurrent gs3) (meshStates w, meshes w, activeIndex gs3) of
           Inl e \<Rightarrow> Inl e
         | Inr (mss, ms, act) \<Rightarrow>
             Inr (w\<lparr>gstate := gs3\<lparr>activeIndex := act\<rparr>,
                    meshStates := mss,
                    meshes := ms,
                    scene_rotation_x := fst rot,
                    scene_rotation_z := snd rot,
                    ring_rotation_z := ring_rotation_z w - speed * 0.5,
                    ring_uTime := timeSeconds,
                    ring_uSpeed := speed\<rparr>,
                  \<lparr>onItemSelect = fired,
                   playSelectSound = (fired \<noteq> None),
                   updateDrone = speed\<rparr>))"

text \<open>
  The frame loop: \<^verbatim>\<open>update\<close> once per frame, collecting the arguments of the
  \<^verbatim>\<open>onItemSelect\<close> calls in order.
\<close>

fun frames :: "gallery \<Rightarrow> frameInput list \<Rightarrow> error + (gallery \<times> int list)" where
  "frames w [] = Inr (w, [])"
| "frames w (inp # inps) =
     (case update inp w of
        Inl e \<Rightarrow> Inl e
      | Inr (w', eff) \<Rightarrow>
          (case frames w' inps of
             Inl e \<Rightarrow> Inl e
           | Inr (w'', calls) \<Rightarrow>
               Inr (w'', (case onItemSelect eff of None \<Rightarrow> [] | Some i \<Rightarrow> [i]) @ calls)))"

section \<open>The effects of CircularGallery.tsx around the frame routine\<close>

text \<open>Lines 211-224: the refs as the component creates them.\<close>

definition initialGallery :: "string list \<Rightarrow> gallery" where
  "initialGallery items =
     \<lparr>gstate = \<lparr>scrollCurrent = 0, scrollTarget = 0, activeIndex = 0,
                isPinching = False, lastPinchTime = 0\<rparr>,
      meshStates = map (\<lambda>_. \<lparr>scale = 1, zOffset = 0\<rparr>) items,
      meshes = [],
      scene_rotation_x = 0, scene_rotation_z = 0, ring_rotation_z = 0,
      ring_uTime = 0, ring_uSpeed = 0\<rparr>"

text \<open>Lines 227-231: the effect that runs when \<^verbatim>\<open>items\<close> changes.\<close>

definition resetEffect :: "string list \<Rightarrow> gallery \<Rightarrow> gallery" where
  "resetEffect items w =
     w\<lparr>meshStates := map (\<lambda>_. \<lparr>scale = 1, zOffset = 0\<rparr>) items,
       gstate := (gstate w)\<lparr>scrollTarget := 0, scrollCurrent := 0\<rparr>\<rparr>"

text \<open>
  Lines 233-320: the effect that runs when \<^verbatim>\<open>items\<close> or \<^verbatim>\<open>selectedIndex\<close> changes
  builds a new scene, a new ring and one new mesh per item.
\<close>

definition newMesh :: mesh where
  "newMesh = \<lparr>uHover = 0, position_x = 0, position_z = 0, rotation_y = 0, mesh_scale = 1\<rparr>"

definition mountEffect :: "string list \<Rightarrow> gallery \<Rightarrow> gallery" where
  "mountEffect items w =
     w\<lparr>meshes := map (\<lambda>src. newMesh) items,
       scene_rotation_x := 0, scene_rotation_z := 0, ring_rotation_z := 0,
       ring_uTime := 0, ring_uSpeed := 0\<rparr>"

definition itemsChanged :: "string list \<Rightarrow> gallery \<Rightarrow> gallery" where
  "itemsChanged items w = mountEffect items (resetEffect items w)"

section \<open>The swipe-to-close effect of App.tsx\<close>

record app =
  selectedItemIndex :: "int option"
  lastY :: real
  swipeCooldown :: int

text \<open>Lines 50-67: the new state, and whether \<^verbatim>\<open>setSelectedItemIndex(null)\<close> was called.\<close>

definition swipeEffect :: "HandCursor \<Rightarrow> int \<Rightarrow> app \<Rightarrow> app \<times> bool" where
  "swipeEffect cursor now a =
     (let (a1, didClose) =
            (if selectedItemIndex a \<noteq> None \<and> cursor_isVisible cursor then
               (let deltaY = cursor_y cursor - lastY a in
                if deltaY > 0.03 \<and> now - swipeCooldown a > 800 then
                  (a\<lparr>selectedItemIndex := None, swipeCooldown := now\<rparr>, True)
                else (a, False))
             else (a, False))
      in (a1\<lparr>lastY := cursor_y cursor\<rparr>, didClose))"

text \<open>The effect over a sequence of cursor samples with their times: how often it closed.\<close>

fun swipes :: "app \<Rightarrow> (HandCursor \<times> int) list \<Rightarrow> app \<times> nat" where
  "swipes a [] = (a, 0)"
| "swipes a ((cursor, now) # rest) =
     (case swipeEffect cursor now a of
        (a', didClose) \<Rightarrow>
          (case swipes a' rest of (a'', n) \<Rightarrow> (a'', (if didClose then 1 else 0) + n)))"

text \<open>Lines 23-31: \<^verbatim>\<open>handleItemSelect\<close>.\<close>

definition handleItemSelect :: "int \<Rightarrow> app \<Rightarrow> app" where
  "handleItemSelect index a =
     a\<lparr>selectedItemIndex := (if selectedItemIndex a \<noteq> None then None else Some index)\<rparr>"

section \<open>Notions of the specification\<close>

text \<open>The smoothing step \<^verbatim>\<open>v += (t - v) * \<alpha>\<close> that the frame routine applies.\<close>

definition lerp :: "real \<Rightarrow> real \<Rightarrow> real \<Rightarrow> real" where
  "lerp \<alpha> t v = v + (t - v) * \<alpha>"

text \<open>An angle wrapped into the interval from \<open>- pi\<close> (excluded) to \<open>pi\<close> (included).\<close>

definition wrapAngle :: "real \<Rightarrow> real" where
  "wrapAngle a = a - 2 * pi * of_int \<lceil>(a - pi) / (2 * pi)\<rceil>"

text \<open>The angle of item \<open>i\<close> among \<open>n\<close> at scroll position \<open>s\<close>.\<close>

definition itemAngle :: "nat \<Rightarrow> nat \<Rightarrow> real \<Rightarrow> real" where
  "itemAngle n i s = real i * ((pi * 2) / real n) - s"

section \<open>Closed forms used in the proofs\<close>

text \<open>
  What the loop body, one frame and a run of frames compute when nothing throws, and the
  tests they make, as terms; the lemmas below relate them to the routines above.
\<close>

definition targetScaleOf :: "int option \<Rightarrow> int \<Rightarrow> nat \<Rightarrow> real" where
  "targetScaleOf sel hoveredIndex i =
     (if sel = Some (int i) then 1.3 else if sel \<noteq> None then 0.8
      else if int i = hoveredIndex then 1.15 else 1.0)"

definition targetZOffsetOf :: "int option \<Rightarrow> int \<Rightarrow> nat \<Rightarrow> real" where
  "targetZOffsetOf sel hoveredIndex i =
     (if sel = Some (int i) then 2.5 else if sel \<noteq> None then - 1.0
      else if int i = hoveredIndex then 0.5 else 0)"

definition meshStateAfter :: "int option \<Rightarrow> int \<Rightarrow> nat \<Rightarrow> meshState \<Rightarrow> meshState" where
  "meshStateAfter sel hoveredIndex i mState =
     mState\<lparr>scale := scale mState + (targetScaleOf sel hoveredIndex i - scale mState) * 0.1,
            zOffset := zOffset mState + (targetZOffsetOf sel hoveredIndex i - zOffset mState) * 0.1\<rparr>"

definition meshAfter :: "int option \<Rightarrow> int \<Rightarrow> real \<Rightarrow> real \<Rightarrow> nat \<Rightarrow> meshState \<Rightarrow> mesh \<Rightarrow> mesh" where
  "meshAfter sel hoveredIndex step scrollCur i mState m =
     m\<lparr>uHover := uHover m + ((if int i = hoveredIndex then 1.0 else 0.0) - uHover m) * 0.1,
       position_x := sin (real i * step - scrollCur) * radius,
       position_z := (cos (real i * step - scrollCur) * radius - radius)
                       + zOffset (meshStateAfter sel hoveredIndex i mState),
       rotation_y := real i * step - scrollCur,
       mesh_scale := scale (meshStateAfter sel hoveredIndex i mState)\<rparr>"

definition activeAfter :: "int option \<Rightarrow> real \<Rightarrow> real \<Rightarrow> nat \<Rightarrow> int \<Rightarrow> int" where
  "activeAfter sel step scrollCur i act =
     (if sel = None \<and> \<bar>wrapAngle (real i * step - scrollCur)\<bar> < step / 2 then int i else act)"

definition meshStatesAfter :: "int option \<Rightarrow> int \<Rightarrow> nat \<Rightarrow> nat \<Rightarrow> meshState list \<Rightarrow> meshState list" where
  "meshStatesAfter sel hoveredIndex k n mss =
     map (\<lambda>i. if k \<le> i \<and> i < n then meshStateAfter sel hoveredIndex i (mss ! i) else mss ! i)
       [0..<length mss]"

definition meshesAfter ::
  "int option \<Rightarrow> int \<Rightarrow> real \<Rightarrow> real \<Rightarrow> nat \<Rightarrow> nat \<Rightarrow> meshState list \<Rightarrow> mesh list \<Rightarrow> mesh list" where
  "meshesAfter sel hoveredIndex step scrollCur k n mss ms =
     map (\<lambda>i. if k \<le> i \<and> i < n then meshAfter sel hoveredIndex step scrollCur i (mss ! i) (ms ! i)
               else ms ! i)
       [0..<length ms]"

definition stepOf :: "nat \<Rightarrow> real" where
  "stepOf n = (pi * 2) / real n"

definition hoveredOf :: "frameInput \<Rightarrow> gallery \<Rightarrow> int" where
  "hoveredOf inp w =
     hoverLogic (frame_cursor inp) (selectedIndex inp \<noteq> None) (frame_hit inp) (length (meshes w))"

definition pinchOf :: "frameInput \<Rightarrow> gallery \<Rightarrow> galleryState \<times> int option" where
  "pinchOf inp w =
     pinchLogic (frame_cursor inp) (frame_now inp) (hoveredOf inp w)
       (scrollLogic (selectedIndex inp \<noteq> None) (frame_cursor inp) (gstate w))"

definition scrollAfter :: "frameInput \<Rightarrow> gallery \<Rightarrow> real" where
  "scrollAfter inp w =
     scrollCurrent (fst (pinchOf inp w))
       + (scrollTarget (fst (pinchOf inp w)) - scrollCurrent (fst (pinchOf inp w))) * 0.1"

definition frameState :: "frameInput \<Rightarrow> gallery \<Rightarrow> gallery" where
  "frameState inp w =
     w\<lparr>gstate := (fst (pinchOf inp w))
                \<lparr>scrollCurrent := scrollAfter inp w,
                 activeIndex := fold (activeAfter (selectedIndex inp) (stepOf (length (meshes w)))
                                  (scrollAfter inp w)) [0..<length (meshes w)] (activeIndex (gstate w))\<rparr>,
       meshStates := meshStatesAfter (selectedIndex inp) (hoveredOf inp w) 0 (length (meshes w)) (meshStates w),
       meshes := meshesAfter (selectedIndex inp) (hoveredOf inp w) (stepOf (length (meshes w)))
                   (scrollAfter inp w) 0 (length (meshes w)) (meshStates w) (meshes w),
       scene_rotation_x := fst (tiltLogic (frame_cursor inp) (scene_rotation_x w, scene_rotation_z w)),
       scene_rotation_z := snd (tiltLogic (frame_cursor inp) (scene_rotation_x w, scene_rotation_z w)),
       ring_rotation_z := ring_rotation_z w - targetSpeed (selectedIndex inp \<noteq> None) (frame_cursor inp) * 0.5,
       ring_uTime := frame_t inp * 0.001,
       ring_uSpeed := targetSpeed (selectedIndex inp \<noteq> None) (frame_cursor inp)\<rparr>"

definition frameEffects :: "frameInput \<Rightarrow> gallery \<Rightarrow> effects" where
  "frameEffects inp w =
     \<lparr>onItemSelect = snd (pinchOf inp w),
      playSelectSound = (snd (pinchOf inp w) \<noteq> None),
      updateDrone = targetSpeed (selectedIndex inp \<noteq> None) (frame_cursor inp)\<rparr>"

definition framesState :: "gallery \<Rightarrow> frameInput list \<Rightarrow> gallery" where
  "framesState w inps = foldl (\<lambda>w' inp. frameState inp w') w inps"

fun framesCalls :: "gallery \<Rightarrow> frameInput list \<Rightarrow> int list" where
  "framesCalls w [] = []"
| "framesCalls w (inp # inps) =
     (case onItemSelect (frameEffects inp w) of None \<Rightarrow> [] | Some i \<Rightarrow> [i])
       @ framesCalls (frameState inp w) inps"

definition swipeFires :: "HandCursor \<Rightarrow> int \<Rightarrow> app \<Rightarrow> bool" where
  "swipeFires cursor now a =
     (selectedItemIndex a \<noteq> None \<and> cursor_isVisible cursor
      \<and> cursor_y cursor - lastY a > 0.03 \<and> now - swipeCooldown a > 800)"

definition frontTest :: "nat \<Rightarrow> real \<Rightarrow> nat \<Rightarrow> bool" where
  "frontTest n s i = (\<bar>wrapAngle (itemAngle n i s)\<bar> < stepOf n / 2)"

section \<open>Example states and inputs\<close>

text \<open>
  Galleries as the component builds them for a list of items, states derived from them
  by setting the scroll position or the active index, cursor samples and frame inputs.
\<close>

definition exampleItems :: "string list" where
  "exampleItems = [''a.png'', ''b.png'', ''c.png'', ''d.png'']"

definition exampleGallery :: gallery where
  "exampleGallery = itemsChanged exampleItems (initialGallery exampleItems)"

definition tenItems :: "string list" where
  "tenItems = replicate 10 ''img''"

definition tenGallery :: gallery where
  "tenGallery = itemsChanged tenItems (initialGallery tenItems)"

definition hundredItems :: "string list" where
  "hundredItems = replicate 100 ''img''"

definition hundredGallery :: gallery where
  "hundredGallery = itemsChanged hundredItems (initialGallery hundredItems)"

definition emptyGallery :: gallery where
  "emptyGallery = itemsChanged [] (initialGallery [])"

definition withActive :: "int \<Rightarrow> gallery \<Rightarrow> gallery" where
  "withActive k w = w\<lparr>gstate := (gstate w)\<lparr>activeIndex := k\<rparr>\<rparr>"

definition scrolledTo :: "real \<Rightarrow> gallery \<Rightarrow> gallery" where
  "scrolledTo s w = w\<lparr>gstate := (gstate w)\<lparr>scrollCurrent := s, scrollTarget := s\<rparr>\<rparr>"

definition boundaryGallery :: "int \<Rightarrow> gallery" where
  "boundaryGallery k = withActive k (scrolledTo (pi / 4) exampleGallery)"

definition pinchCursor :: HandCursor where
  "pinchCursor = \<lparr>cursor_x = 0.5, cursor_y = 0.5, cursor_isPinching = True, cursor_isVisible = True\<rparr>"

definition openCursor :: HandCursor where
  "openCursor = \<lparr>cursor_x = 0.5, cursor_y = 0.5, cursor_isPinching = False, cursor_isVisible = True\<rparr>"

definition farRightCursor :: HandCursor where
  "farRightCursor = \<lparr>cursor_x = 0.9, cursor_y = 0.5, cursor_isPinching = False, cursor_isVisible = True\<rparr>"

definition rightEdgeCursor :: HandCursor where
  "rightEdgeCursor = \<lparr>cursor_x = 1, cursor_y = 0.5, cursor_isPinching = False, cursor_isVisible = True\<rparr>"

definition swipeCursor :: HandCursor where
  "swipeCursor = \<lparr>cursor_x = 0.5, cursor_y = 0.54, cursor_isPinching = False, cursor_isVisible = True\<rparr>"

definition frameAt :: "HandCursor \<Rightarrow> int \<Rightarrow> frameInput" where
  "frameAt cursor now =
     \<lparr>frame_t = 0, frame_cursor = cursor, frame_now = now, selectedIndex = None,
      frame_hit = (\<lambda>i. None)\<rparr>"

definition hitFrame :: frameInput where
  "hitFrame = (frameAt pinchCursor 5000)\<lparr>frame_hit := (\<lambda>i. if i = 2 then Some 1 else None)\<rparr>"

definition hoverFrame :: frameInput where
  "hoverFrame = (frameAt openCursor 5000)\<lparr>frame_hit := (\<lambda>i. Some 1)\<rparr>"

definition exampleApp :: app where
  "exampleApp = \<lparr>selectedItemIndex = Some 3, lastY = 0.5, swipeCooldown = 1000\<rparr>"

section \<open>The wrapped angle\<close>

lemma cos_nonpos_upper: assumes "pi / 2 \<le> a" "a \<le> pi" shows "cos a \<le> 0"
proof -
  have "cos a \<le> cos (pi / 2)"
    using assms by (intro cos_monotone_0_pi_le) auto
  then show ?thesis by simp
qed

lemma cos_nonneg_mid: assumes "- (pi / 2) \<le> a" "a \<le> pi / 2" shows "0 \<le> cos a"
  using assms by (intro cos_ge_zero) auto

lemma sin_neg_lower: assumes "- pi < a" "a < 0" shows "sin a < 0"
proof -
  have "0 < sin (- a)" using assms by (intro sin_gt_zero) auto
  then show ?thesis by simp
qed

lemma cos_pos_range: assumes "- pi < a" "a \<le> pi" "cos a > 0" shows "- (pi/2) < a \<and> a < pi/2"
proof -
  have "a < pi / 2"
  proof (rule ccontr)
    assume "\<not> a < pi / 2"
    then have "cos a \<le> 0" using assms(2) by (intro cos_nonpos_upper) auto
    with assms(3) show False by simp
  qed
  moreover have "- (pi / 2) < a"
  proof (rule ccontr)
    assume "\<not> - (pi / 2) < a"
    then have "cos (- a) \<le> 0" using assms(1) by (intro cos_nonpos_upper) auto
    with assms(3) show False by simp
  qed
  ultimately show ?thesis by simp
qed

lemma cos_neg_sin_nonneg: assumes "- pi < a" "a \<le> pi" "cos a < 0" "sin a \<ge> 0" shows "pi/2 < a"
proof (rule ccontr)
  assume n: "\<not> pi / 2 < a"
  show False
  proof (cases "- (pi / 2) \<le> a")
    case True
    then have "0 \<le> cos a" using n by (intro cos_nonneg_mid) auto
    with assms(3) show False by simp
  next
    case False
    then have "sin a < 0" using assms(1) by (intro sin_neg_lower) auto
    with assms(4) show False by simp
  qed
qed

lemma cos_neg_sin_neg: assumes "- pi < a" "a \<le> pi" "cos a < 0" "sin a < 0" shows "a < - (pi/2)"
proof (rule ccontr)
  assume n: "\<not> a < - (pi / 2)"
  show False
  proof (cases "a \<le> pi / 2")
    case True
    then have "0 \<le> cos a" using n by (intro cos_nonneg_mid) auto
    with assms(3) show False by simp
  next
    case False
    then have "0 \<le> sin a" using assms(2) by (intro sin_ge_zero) auto
    with assms(4) show False by simp
  qed
qed

lemma cos_zero_range: assumes "- pi < a" "a \<le> pi" "cos a = 0" shows "a = pi/2 \<or> a = - (pi/2)"
proof (cases "0 \<le> a")
  case True
  have "a = pi / 2"
  proof (rule cos_inj_pi)
    show "0 \<le> a" by (rule True)
    show "a \<le> pi" by (rule assms(2))
    show "0 \<le> pi / 2" by simp
    show "pi / 2 \<le> pi" by simp
    show "cos a = cos (pi / 2)" by (simp only: assms(3) cos_pi_half)
  qed
  then show ?thesis by (rule disjI1)
next
  case False
  have "- a = pi / 2"
  proof (rule cos_inj_pi)
    show "0 \<le> - a" using False by linarith
    show "- a \<le> pi" using assms(1) by linarith
    show "0 \<le> pi / 2" by simp
    show "pi / 2 \<le> pi" by simp
    show "cos (- a) = cos (pi / 2)" by (simp only: cos_minus assms(3) cos_pi_half)
  qed
  then have "a = - (pi / 2)" by linarith
  then show ?thesis by (rule disjI2)
qed

lemma atan2_sin_cos: assumes "- pi < a" "a \<le> pi" shows "atan2 (sin a) (cos a) = a"
proof -
  consider (pos) "cos a > 0" | (neg1) "cos a < 0" "sin a \<ge> 0" | (neg2) "cos a < 0" "sin a < 0" | (zero) "cos a = 0"
    by linarith
  then show ?thesis
  proof cases
    case pos
    then have r: "- (pi/2) < a \<and> a < pi/2" using assms cos_pos_range by blast
    have "sin a / cos a = tan a" by (simp add: tan_def)
    then show ?thesis using pos r by (simp add: atan2_def arctan_tan)
  next
    case neg1
    then have r: "pi/2 < a" using assms cos_neg_sin_nonneg by blast
    have "sin a / cos a = tan (a - pi)" by (simp add: tan_def)
    moreover have "arctan (tan (a - pi)) = a - pi" using r assms by (intro arctan_tan) auto
    ultimately show ?thesis using neg1 by (simp add: atan2_def)
  next
    case neg2
    then have r: "a < - (pi/2)" using assms cos_neg_sin_neg by blast
    have "sin a / cos a = tan (a + pi)" by (simp add: tan_def)
    moreover have "arctan (tan (a + pi)) = a + pi" using r assms by (intro arctan_tan) auto
    ultimately show ?thesis using neg2 by (simp add: atan2_def)
  next
    case zero
    then have "a = pi/2 \<or> a = - (pi/2)" using assms cos_zero_range by blast
    then show ?thesis
    proof
      assume e: "a = pi / 2"
      have "atan2 (sin (pi / 2)) (cos (pi / 2)) = pi / 2" by (simp add: atan2_def)
      then show ?thesis unfolding e .
    next
      assume e: "a = - (pi / 2)"
      have "atan2 (sin (- (pi / 2))) (cos (- (pi / 2))) = - (pi / 2)" by (simp add: atan2_def)
      then show ?thesis unfolding e .
    qed
  qed
qed

lemma wrap_range: "- pi < wrapAngle a \<and> wrapAngle a \<le> pi"
proof -
  define q where "q = (a - pi) / (2 * pi)"
  define k where "k = real_of_int \<lceil>q\<rceil>"
  define Q where "Q = 2 * pi * q"
  define K where "K = 2 * pi * k"
  have p: "0 < 2 * pi" by simp
  have qa: "Q = a - pi" unfolding Q_def q_def by simp
  have 1: "q \<le> k" unfolding k_def by (rule le_of_int_ceiling)
  have 2: "k < q + 1" unfolding k_def using ceiling_correct[of q] by linarith
  have 3: "Q \<le> K" unfolding Q_def K_def using 1 mult_le_cancel_left_pos[OF p] by blast
  have "2 * pi * k < 2 * pi * (q + 1)" using 2 mult_less_cancel_left_pos[OF p] by blast
  then have 4: "K < Q + 2 * pi" unfolding Q_def K_def by (simp only: distrib_left mult_1_right)
  have w: "wrapAngle a = a - K" by (simp only: wrapAngle_def K_def k_def q_def)
  show ?thesis unfolding w using qa 3 4 by linarith
qed

lemma sin_wrap: "sin (wrapAngle a) = sin a"
proof -
  have "sin (a - 2 * pi * of_int k) = sin a" for k :: int
    by (simp only: sin_diff sin_int_2pin cos_int_2pin mult_1_right mult_zero_right diff_zero)
  then show ?thesis by (simp only: wrapAngle_def)
qed

lemma cos_wrap: "cos (wrapAngle a) = cos a"
proof -
  have "cos (a - 2 * pi * of_int k) = cos a" for k :: int
    by (simp only: cos_diff sin_int_2pin cos_int_2pin mult_1_right mult_zero_right add_0_right)
  then show ?thesis by (simp only: wrapAngle_def)
qed

lemma atan2_wrap: "atan2 (sin a) (cos a) = wrapAngle a"
proof -
  have "atan2 (sin (wrapAngle a)) (cos (wrapAngle a)) = wrapAngle a"
    using wrap_range[of a] by (intro atan2_sin_cos) auto
  then show ?thesis by (simp only: sin_wrap cos_wrap)
qed

lemma wrap_int: "\<exists>k::int. wrapAngle a = a - 2 * pi * of_int k"
  unfolding wrapAngle_def by blast

lemma wrap_lattice:
  assumes n: "0 < n" and i: "i < n" and j: "j < n"
  shows "\<exists>m::int. wrapAngle (itemAngle n j s) - wrapAngle (itemAngle n i s) = (pi * 2 / real n) * of_int m
            \<and> (m = 0 \<longrightarrow> i = j)"
proof -
  define st where "st = pi * 2 / real n"
  obtain ki :: int where ki: "wrapAngle (itemAngle n i s) = itemAngle n i s - 2 * pi * of_int ki"
    using wrap_int by blast
  obtain kj :: int where kj: "wrapAngle (itemAngle n j s) = itemAngle n j s - 2 * pi * of_int kj"
    using wrap_int by blast
  define m :: int where "m = int j - int i - int n * (kj - ki)"
  have n0: "real n \<noteq> 0" using n by simp
  have tp: "2 * pi = st * real n" unfolding st_def using n0 by simp
  have ai: "itemAngle n i s = real i * st - s" and aj: "itemAngle n j s = real j * st - s"
    unfolding itemAngle_def st_def by simp_all
  have "wrapAngle (itemAngle n j s) - wrapAngle (itemAngle n i s)
        = (itemAngle n j s - 2 * pi * of_int kj) - (itemAngle n i s - 2 * pi * of_int ki)"
    by (simp only: ki kj)
  also have "\<dots> = (real j - real i) * st - 2 * pi * (of_int kj - of_int ki)"
    unfolding ai aj by (simp only: algebra_simps)
  also have "\<dots> = (real j - real i) * st - (st * real n) * (of_int kj - of_int ki)"
    by (simp only: tp)
  also have "\<dots> = st * (real j - real i - real n * (of_int kj - of_int ki))"
    by (simp only: algebra_simps)
  also have "real j - real i - real n * (of_int kj - of_int ki) = of_int m"
    unfolding m_def by simp
  finally have e: "wrapAngle (itemAngle n j s) - wrapAngle (itemAngle n i s) = st * of_int m" .
  have z: "i = j" if "m = 0"
  proof -
    from that have d: "int j - int i = int n * (kj - ki)" unfolding m_def by simp
    have "\<bar>int j - int i\<bar> < int n" using i j by linarith
    then have "\<bar>int n * (kj - ki)\<bar> < int n" using d by simp
    then have "int n * \<bar>kj - ki\<bar> < int n * 1" by (simp add: abs_mult)
    then have "\<bar>kj - ki\<bar> < 1" using n by (simp only: mult_less_cancel_left_pos of_nat_0_less_iff)
    then have "kj - ki = 0" by linarith
    then show "i = j" using d by simp
  qed
  show ?thesis using e z unfolding st_def by blast
qed

lemma active_unique:
  assumes n: "0 < n" and i: "i < n" and j: "j < n"
    and ci: "\<bar>wrapAngle (itemAngle n i s)\<bar> < (pi * 2 / real n) / 2"
    and cj: "\<bar>wrapAngle (itemAngle n j s)\<bar> < (pi * 2 / real n) / 2"
  shows "i = j"
proof -
  define st where "st = pi * 2 / real n"
  have sp: "0 < st" unfolding st_def using n by simp
  obtain m :: int where e: "wrapAngle (itemAngle n j s) - wrapAngle (itemAngle n i s) = st * of_int m"
    and z: "m = 0 \<longrightarrow> i = j"
    using wrap_lattice[OF n i j, of s] unfolding st_def by blast
  have "\<bar>st * of_int m\<bar> < st * 1" using ci cj unfolding e[symmetric] st_def[symmetric] by linarith
  then have "st * \<bar>real_of_int m\<bar> < st * 1" using sp by (simp only: abs_mult abs_of_pos)
  then have "\<bar>real_of_int m\<bar> < 1" using sp by (simp only: mult_less_cancel_left_pos)
  then have "m = 0" by linarith
  with z show ?thesis by blast
qed

lemma others_outside:
  assumes n: "0 < n" and i: "i < n" and j: "j < n" and ne: "i \<noteq> j"
    and ci: "\<bar>wrapAngle (itemAngle n i s)\<bar> \<le> (pi * 2 / real n) / 2"
  shows "(pi * 2 / real n) / 2 \<le> \<bar>wrapAngle (itemAngle n j s)\<bar>"
proof -
  define st where "st = pi * 2 / real n"
  have sp: "0 < st" unfolding st_def using n by simp
  obtain m :: int where e: "wrapAngle (itemAngle n j s) - wrapAngle (itemAngle n i s) = st * of_int m"
    and z: "m = 0 \<longrightarrow> i = j"
    using wrap_lattice[OF n i j, of s] unfolding st_def by blast
  from z ne have "m \<noteq> 0" by blast
  then have "1 \<le> \<bar>real_of_int m\<bar>" by linarith
  then have "st * 1 \<le> st * \<bar>real_of_int m\<bar>" using sp by (simp only: mult_le_cancel_left_pos)
  then have "st \<le> \<bar>st * of_int m\<bar>" using sp by (simp only: abs_mult abs_of_pos mult_1_right)
  then show ?thesis using ci unfolding e[symmetric] st_def[symmetric] by linarith
qed

section \<open>The loop over the meshes\<close>

lemma positionMesh_eq:
  assumes "i < length mss"
  shows "positionMesh sel hov step sc i (mss, ms, act) =
           Inr (mss[i := meshStateAfter sel hov i (mss ! i)],
                ms[i := meshAfter sel hov step sc i (mss ! i) (ms ! i)],
                activeAfter sel step sc i act)"
  using assms
  by (simp add: positionMesh_def meshStateAfter_def meshAfter_def activeAfter_def
        targetScaleOf_def targetZOffsetOf_def atan2_wrap Let_def)

lemma idx_eq: "k \<le> i \<Longrightarrow> \<not> Suc k \<le> i \<Longrightarrow> i = (k::nat)"
  by simp

lemma meshStatesAfter_step:
  assumes "k < n"
  shows "meshStatesAfter sel hov (Suc k) n (mss[k := meshStateAfter sel hov k (mss ! k)])
         = meshStatesAfter sel hov k n mss"
  by (rule nth_equalityI) (use assms in \<open>auto simp: meshStatesAfter_def nth_list_update dest: idx_eq\<close>)

lemma meshesAfter_step:
  assumes "k < n"
  shows "meshesAfter sel hov step sc (Suc k) n (mss[k := v]) (ms[k := meshAfter sel hov step sc k (mss ! k) (ms ! k)])
         = meshesAfter sel hov step sc k n mss ms"
  by (rule nth_equalityI) (use assms in \<open>auto simp: meshesAfter_def nth_list_update dest: idx_eq\<close>)

lemma meshStatesAfter_done: "n \<le> k \<Longrightarrow> meshStatesAfter sel hov k n mss = mss"
  by (rule nth_equalityI) (auto simp: meshStatesAfter_def)

lemma meshesAfter_done: "n \<le> k \<Longrightarrow> meshesAfter sel hov step sc k n mss ms = ms"
  by (rule nth_equalityI) (auto simp: meshesAfter_def)

lemma forEachMesh_upt:
  assumes "n \<le> length mss"
  shows "forEachMesh (positionMesh sel hov step sc) [k..<n] (mss, ms, act) =
           Inr (meshStatesAfter sel hov k n mss,
                meshesAfter sel hov step sc k n mss ms,
                fold (activeAfter sel step sc) [k..<n] act)"
  using assms
proof (induction "n - k" arbitrary: k mss ms act)
  case 0
  then have "n \<le> k" by simp
  then show ?case by (simp add: meshStatesAfter_done meshesAfter_done)
next
  case (Suc d)
  then have kn: "k < n" by linarith
  then have kl: "k < length mss" using Suc.prems by linarith
  have u: "[k..<n] = k # [Suc k..<n]" using kn by (rule upt_conv_Cons)
  have d: "d = n - Suc k" using Suc.hyps(2) by linarith
  have l: "n \<le> length (mss[k := meshStateAfter sel hov k (mss ! k)])" using Suc.prems by simp
  show ?case
    unfolding u
    by (simp only: forEachMesh.simps positionMesh_eq[OF kl] sum.case Suc.hyps(1)[OF d l]
          meshStatesAfter_step[OF kn] meshesAfter_step[OF kn] fold_simps comp_apply)
qed

section \<open>One frame in closed form\<close>

lemma positionMeshes_eq:
  assumes "length ms \<le> length mss"
  shows "positionMeshes sel hov (angleStep (length ms)) sc (mss, ms, act) =
           Inr (meshStatesAfter sel hov 0 (length ms) mss,
                meshesAfter sel hov (stepOf (length ms)) sc 0 (length ms) mss ms,
                fold (activeAfter sel (stepOf (length ms)) sc) [0..<length ms] act)"
proof (cases "length ms = 0")
  case True
  then show ?thesis
    by (simp add: positionMeshes_def angleStep_def meshStatesAfter_done meshesAfter_done)
next
  case False
  then show ?thesis
    using forEachMesh_upt[OF assms, of sel hov "stepOf (length ms)" sc 0 ms act]
    by (simp add: positionMeshes_def angleStep_def stepOf_def)
qed

lemma pinch_activeIndex: "activeIndex (fst (pinchLogic c now h gs)) = activeIndex gs"
  by (simp add: pinchLogic_def)

lemma scroll_activeIndex: "activeIndex (scrollLogic d c gs) = activeIndex gs"
  by (simp add: scrollLogic_def)

lemma update_eq:
  assumes "length (meshes w) \<le> length (meshStates w)"
  shows "update inp w = Inr (frameState inp w, frameEffects inp w)"
  unfolding update_def Let_def frameState_def frameEffects_def
  by (simp add: case_prod_beta positionMeshes_eq[OF assms] pinchOf_def hoveredOf_def
        scrollAfter_def pinch_activeIndex scroll_activeIndex)

lemma length_meshStatesAfter: "length (meshStatesAfter sel hov k n mss) = length mss"
  by (simp add: meshStatesAfter_def)

lemma length_meshesAfter: "length (meshesAfter sel hov st sc k n mss ms) = length ms"
  by (simp add: meshesAfter_def)

lemma frameState_lengths:
  "length (meshes (frameState inp w)) = length (meshes w)"
  "length (meshStates (frameState inp w)) = length (meshStates w)"
  by (simp_all add: frameState_def length_meshStatesAfter length_meshesAfter)

lemma frameState_pinch:
  "isPinching (gstate (frameState inp w)) = actionablePinch (frame_cursor inp)"
  "lastPinchTime (gstate (frameState inp w)) =
     (if actionablePinch (frame_cursor inp) \<and> \<not> isPinching (gstate w)
         \<and> frame_now inp - lastPinchTime (gstate w) > 1000
      then frame_now inp else lastPinchTime (gstate w))"
  by (simp_all add: frameState_def pinchOf_def pinchLogic_def scrollLogic_def)

lemma frameEffects_fire:
  "onItemSelect (frameEffects inp w) =
     (if actionablePinch (frame_cursor inp) \<and> \<not> isPinching (gstate w)
         \<and> frame_now inp - lastPinchTime (gstate w) > 1000
      then Some (if hoveredOf inp w \<noteq> - 1 then hoveredOf inp w else activeIndex (gstate w))
      else None)"
  by (simp add: frameEffects_def pinchOf_def pinchLogic_def scrollLogic_def)

lemma frameState_scroll:
  "scrollTarget (gstate (frameState inp w)) =
     (if selectedIndex inp = None \<and> cursor_isVisible (frame_cursor inp)
      then scrollTarget (gstate w) + targetSpeed False (frame_cursor inp)
      else scrollTarget (gstate w))"
  "scrollCurrent (gstate (frameState inp w)) =
     lerp 0.1 (scrollTarget (gstate (frameState inp w))) (scrollCurrent (gstate w))"
  by (auto simp add: frameState_def pinchOf_def pinchLogic_def scrollLogic_def scrollAfter_def lerp_def)

lemma frameState_activeIndex:
  "activeIndex (gstate (frameState inp w)) =
     fold (activeAfter (selectedIndex inp) (stepOf (length (meshes w)))
             (scrollCurrent (gstate (frameState inp w))))
       [0..<length (meshes w)] (activeIndex (gstate w))"
  by (simp add: frameState_def)

section \<open>Smoothing\<close>

lemma lerp_error: "lerp \<alpha> t v - t = (1 - \<alpha>) * (v - t)"
  by (simp add: lerp_def algebra_simps)

lemma lerp_iterate: "((lerp \<alpha> t) ^^ n) v - t = (1 - \<alpha>) ^ n * (v - t)"
proof (induction n)
  case 0
  show ?case by simp
next
  case (Suc n)
  have "((lerp \<alpha> t) ^^ Suc n) v - t = lerp \<alpha> t (((lerp \<alpha> t) ^^ n) v) - t" by simp
  also have "\<dots> = (1 - \<alpha>) * ((((lerp \<alpha> t) ^^ n) v) - t)" by (rule lerp_error)
  also have "\<dots> = (1 - \<alpha>) ^ Suc n * (v - t)" by (simp only: Suc.IH power_Suc mult.assoc)
  finally show ?case .
qed

lemma lerp_converges:
  assumes a: "0 < \<alpha>" "\<alpha> < 1" and e: "0 < \<epsilon>"
  shows "\<exists>n0. \<forall>n\<ge>n0. \<bar>((lerp \<alpha> t) ^^ n) v - t\<bar> < \<epsilon>"
proof (cases "v = t")
  case True
  then show ?thesis using e by (simp add: lerp_iterate)
next
  case False
  define c where "c = 1 - \<alpha>"
  have c: "0 < c" "c < 1" unfolding c_def using a by simp_all
  have d: "0 < \<bar>v - t\<bar>" using False by simp
  then have "0 < \<epsilon> / \<bar>v - t\<bar>" using e by simp
  then obtain n0 where n0: "c ^ n0 < \<epsilon> / \<bar>v - t\<bar>"
    using real_arch_pow_inv[OF _ c(2)] by blast
  have "\<bar>((lerp \<alpha> t) ^^ n) v - t\<bar> < \<epsilon>" if "n0 \<le> n" for n
  proof -
    have "c ^ n \<le> c ^ n0" using that c by (intro power_decreasing) simp_all
    then have "c ^ n < \<epsilon> / \<bar>v - t\<bar>" using n0 by linarith
    then have "c ^ n * \<bar>v - t\<bar> < \<epsilon>" using d by (simp add: pos_less_divide_eq)
    moreover have "\<bar>((lerp \<alpha> t) ^^ n) v - t\<bar> = c ^ n * \<bar>v - t\<bar>"
      unfolding lerp_iterate c_def[symmetric] using c by (simp add: abs_mult)
    ultimately show ?thesis by simp
  qed
  then show ?thesis by blast
qed

lemma nth_meshStatesAfter:
  "i < n \<Longrightarrow> i < length mss \<Longrightarrow>
   meshStatesAfter sel hov 0 n mss ! i = meshStateAfter sel hov i (mss ! i)"
  by (simp add: meshStatesAfter_def)

lemma nth_meshesAfter:
  "i < n \<Longrightarrow> i < length ms \<Longrightarrow>
   meshesAfter sel hov st sc 0 n mss ms ! i = meshAfter sel hov st sc i (mss ! i) (ms ! i)"
  by (simp add: meshesAfter_def)

lemma frameState_tilt:
  "scene_rotation_x (frameState inp w) =
     lerp 0.05 (if cursor_isVisible (frame_cursor inp) then (cursor_y (frame_cursor inp) - 0.5) * 1.5 else 0)
       (scene_rotation_x w)"
  "scene_rotation_z (frameState inp w) =
     lerp 0.05 (if cursor_isVisible (frame_cursor inp) then (cursor_x (frame_cursor inp) - 0.5) * (- 0.5) else 0)
       (scene_rotation_z w)"
  by (simp_all add: frameState_def tiltLogic_def lerp_def)

lemma frameState_item:
  assumes "i < length (meshes w)" "length (meshes w) \<le> length (meshStates w)"
  shows "meshStates (frameState inp w) ! i =
           meshStateAfter (selectedIndex inp) (hoveredOf inp w) i (meshStates w ! i)"
    and "meshes (frameState inp w) ! i =
           meshAfter (selectedIndex inp) (hoveredOf inp w) (stepOf (length (meshes w)))
             (scrollCurrent (gstate (frameState inp w))) i (meshStates w ! i) (meshes w ! i)"
  using assms by (simp_all add: frameState_def nth_meshStatesAfter nth_meshesAfter)

lemma exampleGallery_len: "length (meshes exampleGallery) \<le> length (meshStates exampleGallery)"
  by (simp add: exampleGallery_def itemsChanged_def mountEffect_def resetEffect_def initialGallery_def)

text \<open>
  C8. One smoothing step with a factor strictly between 0 and 1 multiplies the error
  by one minus the factor and keeps its sign; with the target held, the error after n
  steps is that factor to the n times the first error, its size never grows (and
  shrinks while it is not zero), the value never crosses the target, and it comes
  within any positive distance of the target. One frame applies this step with factor
  0.1 to the scroll position and to each item's scale, depth offset and hover glow,
  and with factor 0.05 to the scene's tilt and roll.
\<close>

theorem C8_smoothing:
  assumes a: "0 < \<alpha>" "\<alpha> < 1" and len: "length (meshes w) \<le> length (meshStates w)"
  shows "lerp \<alpha> t v - t = (1 - \<alpha>) * (v - t)
       \<and> sgn (lerp \<alpha> t v - t) = sgn (v - t)
       \<and> ((lerp \<alpha> t) ^^ n) v - t = (1 - \<alpha>) ^ n * (v - t)
       \<and> \<bar>((lerp \<alpha> t) ^^ Suc n) v - t\<bar> \<le> \<bar>((lerp \<alpha> t) ^^ n) v - t\<bar>
       \<and> (v \<noteq> t \<longrightarrow> \<bar>((lerp \<alpha> t) ^^ Suc n) v - t\<bar> < \<bar>((lerp \<alpha> t) ^^ n) v - t\<bar>)
       \<and> (v \<le> t \<longrightarrow> ((lerp \<alpha> t) ^^ n) v \<le> t)
       \<and> (t \<le> v \<longrightarrow> t \<le> ((lerp \<alpha> t) ^^ n) v)
       \<and> (\<forall>\<epsilon>>0. \<exists>n0. \<forall>m\<ge>n0. \<bar>((lerp \<alpha> t) ^^ m) v - t\<bar> < \<epsilon>)
       \<and> (\<exists>w' eff. update inp w = Inr (w', eff)
            \<and> scrollCurrent (gstate w') = lerp 0.1 (scrollTarget (gstate w')) (scrollCurrent (gstate w))
            \<and> scene_rotation_x w' =
                lerp 0.05 (if cursor_isVisible (frame_cursor inp)
                           then (cursor_y (frame_cursor inp) - 0.5) * 1.5 else 0) (scene_rotation_x w)
            \<and> scene_rotation_z w' =
                lerp 0.05 (if cursor_isVisible (frame_cursor inp)
                           then (cursor_x (frame_cursor inp) - 0.5) * (- 0.5) else 0) (scene_rotation_z w)
            \<and> (\<forall>i<length (meshes w).
                  scale (meshStates w' ! i) =
                    lerp 0.1 (targetScaleOf (selectedIndex inp) (hoveredOf inp w) i) (scale (meshStates w ! i))
                \<and> zOffset (meshStates w' ! i) =
                    lerp 0.1 (targetZOffsetOf (selectedIndex inp) (hoveredOf inp w) i) (zOffset (meshStates w ! i))
                \<and> uHover (meshes w' ! i) =
                    lerp 0.1 (if int i = hoveredOf inp w then 1 else 0) (uHover (meshes w ! i))))"
proof -
  define c where "c = 1 - \<alpha>"
  have c: "0 < c" "c < 1" unfolding c_def using a by simp_all
  have cn: "0 < c ^ n" using c by simp
  have it: "((lerp \<alpha> t) ^^ k) v - t = c ^ k * (v - t)" for k
    unfolding c_def by (rule lerp_iterate)
  have 1: "lerp \<alpha> t v - t = (1 - \<alpha>) * (v - t)" by (rule lerp_error)
  have 2: "sgn (lerp \<alpha> t v - t) = sgn (v - t)"
    unfolding 1 c_def[symmetric] using c by (simp add: sgn_mult)
  have 3: "((lerp \<alpha> t) ^^ n) v - t = (1 - \<alpha>) ^ n * (v - t)" by (rule lerp_iterate)
  have ab: "\<bar>((lerp \<alpha> t) ^^ k) v - t\<bar> = c ^ k * \<bar>v - t\<bar>" for k
    unfolding it using c by (simp add: abs_mult)
  have sc: "c ^ Suc n * \<bar>v - t\<bar> = c * (c ^ n * \<bar>v - t\<bar>)" by simp
  have nn: "0 \<le> c ^ n * \<bar>v - t\<bar>" using cn by simp
  have 4: "\<bar>((lerp \<alpha> t) ^^ Suc n) v - t\<bar> \<le> \<bar>((lerp \<alpha> t) ^^ n) v - t\<bar>"
    unfolding ab sc using c nn by (simp add: mult_left_le_one_le)
  have 5: "\<bar>((lerp \<alpha> t) ^^ Suc n) v - t\<bar> < \<bar>((lerp \<alpha> t) ^^ n) v - t\<bar>" if "v \<noteq> t"
  proof -
    have "0 < c ^ n * \<bar>v - t\<bar>" using cn that by simp
    then have "c * (c ^ n * \<bar>v - t\<bar>) < 1 * (c ^ n * \<bar>v - t\<bar>)"
      using c(2) by (simp only: mult_less_cancel_right_pos)
    then show ?thesis unfolding ab sc by simp
  qed
  have 6: "((lerp \<alpha> t) ^^ n) v \<le> t" if "v \<le> t"
  proof -
    have "c ^ n * (v - t) \<le> 0" using cn that by (simp add: mult_le_0_iff)
    then show ?thesis using it[of n] by linarith
  qed
  have 7: "t \<le> ((lerp \<alpha> t) ^^ n) v" if "t \<le> v"
  proof -
    have "0 \<le> c ^ n * (v - t)" using cn that by simp
    then show ?thesis using it[of n] by linarith
  qed
  have 8: "\<forall>\<epsilon>>0. \<exists>n0. \<forall>m\<ge>n0. \<bar>((lerp \<alpha> t) ^^ m) v - t\<bar> < \<epsilon>"
    using lerp_converges[OF a] by blast
  have 9: "\<exists>w' eff. update inp w = Inr (w', eff)
            \<and> scrollCurrent (gstate w') = lerp 0.1 (scrollTarget (gstate w')) (scrollCurrent (gstate w))
            \<and> scene_rotation_x w' =
                lerp 0.05 (if cursor_isVisible (frame_cursor inp)
                           then (cursor_y (frame_cursor inp) - 0.5) * 1.5 else 0) (scene_rotation_x w)
            \<and> scene_rotation_z w' =
                lerp 0.05 (if cursor_isVisible (frame_cursor inp)
                           then (cursor_x (frame_cursor inp) - 0.5) * (- 0.5) else 0) (scene_rotation_z w)
            \<and> (\<forall>i<length (meshes w).
                  scale (meshStates w' ! i) =
                    lerp 0.1 (targetScaleOf (selectedIndex inp) (hoveredOf inp w) i) (scale (meshStates w ! i))
                \<and> zOffset (meshStates w' ! i) =
                    lerp 0.1 (targetZOffsetOf (selectedIndex inp) (hoveredOf inp w) i) (zOffset (meshStates w ! i))
                \<and> uHover (meshes w' ! i) =
                    lerp 0.1 (if int i = hoveredOf inp w then 1 else 0) (uHover (meshes w ! i)))"
  proof (intro exI conjI allI impI)
    show "update inp w = Inr (frameState inp w, frameEffects inp w)" by (rule update_eq[OF len])
    show "scrollCurrent (gstate (frameState inp w)) =
            lerp 0.1 (scrollTarget (gstate (frameState inp w))) (scrollCurrent (gstate w))"
      by (rule frameState_scroll(2))
    show "scene_rotation_x (frameState inp w) =
            lerp 0.05 (if cursor_isVisible (frame_cursor inp)
                       then (cursor_y (frame_cursor inp) - 0.5) * 1.5 else 0) (scene_rotation_x w)"
      by (rule frameState_tilt(1))
    show "scene_rotation_z (frameState inp w) =
            lerp 0.05 (if cursor_isVisible (frame_cursor inp)
                       then (cursor_x (frame_cursor inp) - 0.5) * (- 0.5) else 0) (scene_rotation_z w)"
      by (rule frameState_tilt(2))
  next
    fix i assume i: "i < length (meshes w)"
    show "scale (meshStates (frameState inp w) ! i) =
            lerp 0.1 (targetScaleOf (selectedIndex inp) (hoveredOf inp w) i) (scale (meshStates w ! i))"
      unfolding frameState_item(1)[OF i len] by (simp add: meshStateAfter_def lerp_def)
    show "zOffset (meshStates (frameState inp w) ! i) =
            lerp 0.1 (targetZOffsetOf (selectedIndex inp) (hoveredOf inp w) i) (zOffset (meshStates w ! i))"
      unfolding frameState_item(1)[OF i len] by (simp add: meshStateAfter_def lerp_def)
    show "uHover (meshes (frameState inp w) ! i) =
            lerp 0.1 (if int i = hoveredOf inp w then 1 else 0) (uHover (meshes w ! i))"
      unfolding frameState_item(2)[OF i len] by (simp add: meshAfter_def lerp_def)
  qed
  from 1 2 3 4 5 6 7 8 9 show ?thesis by blast
qed

theorem C8_smoothing_witness:
  "(0::real) < 0.1 \<and> (0.1::real) < 1
   \<and> length (meshes exampleGallery) \<le> length (meshStates exampleGallery)
   \<and> lerp 0.1 1 0 - 1 = (1 - 0.1) * (0 - 1)
   \<and> ((lerp 0.1 1) ^^ 2) 0 - 1 = (1 - 0.1) ^ 2 * (0 - 1)
   \<and> \<bar>((lerp 0.1 1) ^^ Suc 2) 0 - 1\<bar> < \<bar>((lerp 0.1 1) ^^ 2) 0 - 1\<bar>
   \<and> ((lerp 0.1 1) ^^ 2) 0 \<le> 1
   \<and> (\<exists>w' eff. update (frameAt openCursor 5000) exampleGallery = Inr (w', eff)
        \<and> scrollCurrent (gstate w') =
            lerp 0.1 (scrollTarget (gstate w')) (scrollCurrent (gstate exampleGallery)))"
proof -
  have a: "(0::real) < 0.1" "(0.1::real) < 1" by simp_all
  have ne: "(0::real) \<noteq> 1" by simp
  have le: "(0::real) \<le> 1" by simp
  from C8_smoothing[OF a exampleGallery_len, of 1 0 2 "frameAt openCursor 5000"] a ne le exampleGallery_len
  show ?thesis by blast
qed

section \<open>Pinch selection\<close>

lemma framesState_simps:
  "framesState w [] = w"
  "framesState w (inp # inps) = framesState (frameState inp w) inps"
  by (simp_all add: framesState_def)

lemma framesState_append: "framesState w (xs @ ys) = framesState (framesState w xs) ys"
  by (simp add: framesState_def)

lemma framesCalls_append:
  "framesCalls w (xs @ ys) = framesCalls w xs @ framesCalls (framesState w xs) ys"
  by (induction xs arbitrary: w) (simp_all add: framesState_simps)

lemma frames_eq:
  assumes "length (meshes w) \<le> length (meshStates w)"
  shows "frames w inps = Inr (framesState w inps, framesCalls w inps)"
  using assms
proof (induction inps arbitrary: w)
  case Nil
  show ?case by (simp add: framesState_simps)
next
  case (Cons inp inps)
  have l: "length (meshes (frameState inp w)) \<le> length (meshStates (frameState inp w))"
    using Cons.prems by (simp add: frameState_lengths)
  show ?case
    by (simp add: update_eq[OF Cons.prems] Cons.IH[OF l] framesState_simps)
qed

lemma held_frames:
  assumes "isPinching (gstate w)" "\<forall>f\<in>set xs. actionablePinch (frame_cursor f)"
  shows "framesCalls w xs = []
       \<and> isPinching (gstate (framesState w xs))
       \<and> lastPinchTime (gstate (framesState w xs)) = lastPinchTime (gstate w)"
  using assms
proof (induction xs arbitrary: w)
  case Nil
  then show ?case by (simp add: framesState_simps)
next
  case (Cons x xs)
  have a: "actionablePinch (frame_cursor x)" using Cons.prems(2) by simp
  have p: "isPinching (gstate (frameState x w))" using a by (simp add: frameState_pinch)
  have l: "lastPinchTime (gstate (frameState x w)) = lastPinchTime (gstate w)"
    using Cons.prems(1) by (simp add: frameState_pinch)
  have f: "onItemSelect (frameEffects x w) = None"
    using Cons.prems(1) by (simp add: frameEffects_fire)
  have r: "\<forall>f\<in>set xs. actionablePinch (frame_cursor f)" using Cons.prems(2) by simp
  show ?case using Cons.IH[OF p r] l f by (simp add: framesState_simps)
qed

lemma released_frames:
  assumes "\<forall>f\<in>set ys. \<not> actionablePinch (frame_cursor f)"
  shows "framesCalls w ys = []
       \<and> (ys \<noteq> [] \<longrightarrow> \<not> isPinching (gstate (framesState w ys)))
       \<and> lastPinchTime (gstate (framesState w ys)) = lastPinchTime (gstate w)"
  using assms
proof (induction ys arbitrary: w rule: rev_induct)
  case Nil
  then show ?case by (simp add: framesState_simps)
next
  case (snoc y ys)
  have a: "\<not> actionablePinch (frame_cursor y)" using snoc.prems by simp
  have r: "\<forall>f\<in>set ys. \<not> actionablePinch (frame_cursor f)" using snoc.prems by simp
  note ih = snoc.IH[OF r, of w]
  show ?case using ih a
    by (simp add: framesState_append framesCalls_append framesState_simps frameState_pinch frameEffects_fire)
qed

lemma edge_frames:
  assumes "\<not> isPinching (gstate w)" "\<forall>f\<in>set (x # xs). actionablePinch (frame_cursor f)"
  shows "length (framesCalls w (x # xs)) = (if frame_now x - lastPinchTime (gstate w) > 1000 then 1 else 0)
       \<and> isPinching (gstate (framesState w (x # xs)))
       \<and> lastPinchTime (gstate (framesState w (x # xs))) =
           (if frame_now x - lastPinchTime (gstate w) > 1000 then frame_now x else lastPinchTime (gstate w))"
proof -
  have a: "actionablePinch (frame_cursor x)" using assms(2) by simp
  have p: "isPinching (gstate (frameState x w))" using a by (simp add: frameState_pinch)
  have r: "\<forall>f\<in>set xs. actionablePinch (frame_cursor f)" using assms(2) by simp
  note h = held_frames[OF p r]
  show ?thesis using h a assms(1)
    by (simp add: framesState_simps frameState_pinch frameEffects_fire)
qed

lemma two_rising_edges:
  assumes len: "length (meshes w) \<le> length (meshStates w)"
    and np: "\<not> isPinching (gstate w)"
    and first: "frame_now x - lastPinchTime (gstate w) > 1000"
    and xs: "\<forall>f\<in>set (x # xs). actionablePinch (frame_cursor f)"
    and ys: "\<forall>f\<in>set (y # ys). \<not> actionablePinch (frame_cursor f)"
    and zs: "\<forall>f\<in>set (z # zs). actionablePinch (frame_cursor f)"
  shows "\<exists>w' calls. frames w ((x # xs) @ (y # ys) @ (z # zs)) = Inr (w', calls)
           \<and> length calls = (if frame_now z - frame_now x > 1000 then 2 else 1)"
proof -
  define w1 where "w1 = framesState w (x # xs)"
  define w2 where "w2 = framesState w1 (y # ys)"
  note e1 = edge_frames[OF np xs, folded w1_def]
  note e2 = released_frames[OF ys, of w1, folded w2_def]
  have np2: "\<not> isPinching (gstate w2)" using e2 by simp
  note e3 = edge_frames[OF np2 zs]
  have l2: "lastPinchTime (gstate w2) = frame_now x" using e1 e2 first by simp
  have "length (framesCalls w ((x # xs) @ (y # ys) @ (z # zs))) =
          (if frame_now z - frame_now x > 1000 then 2 else 1)"
    unfolding framesCalls_append w1_def[symmetric] w2_def[symmetric]
    using e1 e2 e3 first l2 by simp
  then show ?thesis using frames_eq[OF len] by blast
qed

lemma hoveredOf_range: "- 1 \<le> hoveredOf inp w"
  by (simp add: hoveredOf_def hoverLogic_def split: list.split)

lemma hoveredOf_pinching:
  "cursor_isPinching (frame_cursor inp) \<Longrightarrow> hoveredOf inp w = - 1"
  by (simp add: hoveredOf_def hoverLogic_def)

lemma example_facts:
  "length (meshes exampleGallery) \<le> length (meshStates exampleGallery)"
  "\<not> isPinching (gstate exampleGallery)"
  "lastPinchTime (gstate exampleGallery) = 0"
  "activeIndex (gstate exampleGallery) = 0"
  "length (meshes exampleGallery) = 4"
  "length (meshStates exampleGallery) = 4"
  by (simp_all add: exampleGallery_def itemsChanged_def mountEffect_def resetEffect_def
        initialGallery_def exampleItems_def)

lemma frameAt_facts:
  "frame_now (frameAt c t) = t"
  "frame_cursor (frameAt c t) = c"
  "selectedIndex (frameAt c t) = None"
  by (simp_all add: frameAt_def)

lemma cursor_facts:
  "actionablePinch pinchCursor"
  "\<not> actionablePinch openCursor"
  by (simp_all add: actionablePinch_def isInPinchableArea_def pinchCursor_def openCursor_def)

text \<open>
  C1 (amended). A frame calls the selection callback exactly when the pinch is
  actionable, the pinch-held flag was false, and more than 1000 ms have passed since
  the last call (the comparison is strict); the flag then holds whether the pinch is
  actionable, and the time of the last call is updated only by a call. Over a run of
  frames with two rising edges (pinch frames, then release frames, then pinch frames),
  the first of which fires, the callback is called twice when the second edge comes
  more than 1000 ms after the first, and once otherwise.
\<close>

theorem C1_pinch_edge_debounce:
  assumes len: "length (meshes w) \<le> length (meshStates w)"
  shows "(\<exists>w' eff. update inp w = Inr (w', eff)
            \<and> (onItemSelect eff \<noteq> None \<longleftrightarrow>
                 actionablePinch (frame_cursor inp) \<and> \<not> isPinching (gstate w)
                 \<and> frame_now inp - lastPinchTime (gstate w) > 1000)
            \<and> isPinching (gstate w') = actionablePinch (frame_cursor inp)
            \<and> lastPinchTime (gstate w') =
                (if onItemSelect eff \<noteq> None then frame_now inp else lastPinchTime (gstate w)))
       \<and> (\<not> isPinching (gstate w) \<and> frame_now x - lastPinchTime (gstate w) > 1000
            \<and> (\<forall>f\<in>set (x # xs). actionablePinch (frame_cursor f))
            \<and> (\<forall>f\<in>set (y # ys). \<not> actionablePinch (frame_cursor f))
            \<and> (\<forall>f\<in>set (z # zs). actionablePinch (frame_cursor f))
          \<longrightarrow> (\<exists>w' calls. frames w ((x # xs) @ (y # ys) @ (z # zs)) = Inr (w', calls)
                 \<and> length calls = (if frame_now z - frame_now x > 1000 then 2 else 1)))"
proof (intro conjI impI)
  show "\<exists>w' eff. update inp w = Inr (w', eff)
            \<and> (onItemSelect eff \<noteq> None \<longleftrightarrow>
                 actionablePinch (frame_cursor inp) \<and> \<not> isPinching (gstate w)
                 \<and> frame_now inp - lastPinchTime (gstate w) > 1000)
            \<and> isPinching (gstate w') = actionablePinch (frame_cursor inp)
            \<and> lastPinchTime (gstate w') =
                (if onItemSelect eff \<noteq> None then frame_now inp else lastPinchTime (gstate w))"
    by (intro exI conjI, rule update_eq[OF len]) (simp_all add: frameEffects_fire frameState_pinch)
next
  assume h: "\<not> isPinching (gstate w) \<and> frame_now x - lastPinchTime (gstate w) > 1000
            \<and> (\<forall>f\<in>set (x # xs). actionablePinch (frame_cursor f))
            \<and> (\<forall>f\<in>set (y # ys). \<not> actionablePinch (frame_cursor f))
            \<and> (\<forall>f\<in>set (z # zs). actionablePinch (frame_cursor f))"
  then show "\<exists>w' calls. frames w ((x # xs) @ (y # ys) @ (z # zs)) = Inr (w', calls)
                 \<and> length calls = (if frame_now z - frame_now x > 1000 then 2 else 1)"
    using two_rising_edges[OF len, of x xs y ys z zs] by blast
qed

theorem C1_pinch_edge_debounce_witness:
  "length (meshes exampleGallery) \<le> length (meshStates exampleGallery)
   \<and> \<not> isPinching (gstate exampleGallery)
   \<and> frame_now (frameAt pinchCursor 5000) - lastPinchTime (gstate exampleGallery) > 1000
   \<and> actionablePinch (frame_cursor (frameAt pinchCursor 5000))
   \<and> \<not> actionablePinch (frame_cursor (frameAt openCursor 5500))
   \<and> actionablePinch (frame_cursor (frameAt pinchCursor 6001))
   \<and> (\<exists>w' eff. update (frameAt pinchCursor 5000) exampleGallery = Inr (w', eff)
         \<and> onItemSelect eff \<noteq> None \<and> isPinching (gstate w') \<and> lastPinchTime (gstate w') = 5000)
   \<and> (\<exists>w' calls. frames exampleGallery
          [frameAt pinchCursor 5000, frameAt openCursor 5500, frameAt pinchCursor 6001] = Inr (w', calls)
         \<and> length calls = 2)"
proof -
  note t = C1_pinch_edge_debounce[OF example_facts(1), of "frameAt pinchCursor 5000"
      "frameAt pinchCursor 5000" "[]" "frameAt openCursor 5500" "[]" "frameAt pinchCursor 6001" "[]"]
  have h1: "frame_now (frameAt pinchCursor 5000) - lastPinchTime (gstate exampleGallery) > 1000"
    by (simp add: example_facts frameAt_facts)
  have h2: "actionablePinch (frame_cursor (frameAt pinchCursor 5000))"
    "\<not> actionablePinch (frame_cursor (frameAt openCursor 5500))"
    "actionablePinch (frame_cursor (frameAt pinchCursor 6001))"
    by (simp_all add: frameAt_facts cursor_facts)
  have h3: "frame_now (frameAt pinchCursor 6001) - frame_now (frameAt pinchCursor 5000) > 1000"
    by (simp add: frameAt_facts)
  from t obtain w1 eff1 where u: "update (frameAt pinchCursor 5000) exampleGallery = Inr (w1, eff1)"
    and f: "onItemSelect eff1 \<noteq> None \<longleftrightarrow>
              actionablePinch (frame_cursor (frameAt pinchCursor 5000)) \<and> \<not> isPinching (gstate exampleGallery)
              \<and> frame_now (frameAt pinchCursor 5000) - lastPinchTime (gstate exampleGallery) > 1000"
    and p: "isPinching (gstate w1) = actionablePinch (frame_cursor (frameAt pinchCursor 5000))"
    and l: "lastPinchTime (gstate w1) =
              (if onItemSelect eff1 \<noteq> None then frame_now (frameAt pinchCursor 5000)
               else lastPinchTime (gstate exampleGallery))"
    by blast
  have f': "onItemSelect eff1 \<noteq> None" using f h1 h2(1) example_facts(2) by blast
  have p': "isPinching (gstate w1)" using p h2(1) by blast
  have l': "lastPinchTime (gstate w1) = 5000" using l f' by (simp add: frameAt_facts)
  have a: "\<exists>w' eff. update (frameAt pinchCursor 5000) exampleGallery = Inr (w', eff)
         \<and> onItemSelect eff \<noteq> None \<and> isPinching (gstate w') \<and> lastPinchTime (gstate w') = 5000"
    using u f' p' l' by blast
  have s: "\<forall>f\<in>set [frameAt pinchCursor 5000]. actionablePinch (frame_cursor f)"
    "\<forall>f\<in>set [frameAt openCursor 5500]. \<not> actionablePinch (frame_cursor f)"
    "\<forall>f\<in>set [frameAt pinchCursor 6001]. actionablePinch (frame_cursor f)"
    using h2 by simp_all
  from t example_facts(2) h1 s
  have "\<exists>w' calls. frames exampleGallery
          ([frameAt pinchCursor 5000] @ [frameAt openCursor 5500] @ [frameAt pinchCursor 6001]) = Inr (w', calls)
         \<and> length calls = (if frame_now (frameAt pinchCursor 6001) - frame_now (frameAt pinchCursor 5000) > 1000
                            then 2 else 1)"
    by blast
  then have b: "\<exists>w' calls. frames exampleGallery
          [frameAt pinchCursor 5000, frameAt openCursor 5500, frameAt pinchCursor 6001] = Inr (w', calls)
         \<and> length calls = 2"
    using h3 by (simp only: append_Cons append_Nil if_True)
  show ?thesis using example_facts(1,2) h1 h2 a b by blast
qed

theorem C1_exactly_1000ms_counterexample:
  "frame_now (frameAt pinchCursor 6000) - frame_now (frameAt pinchCursor 5000) \<ge> 1000
   \<and> (\<exists>w' calls. frames exampleGallery
          [frameAt pinchCursor 5000, frameAt openCursor 5500, frameAt pinchCursor 6000] = Inr (w', calls)
         \<and> length calls = 1)"
proof -
  have h1: "frame_now (frameAt pinchCursor 5000) - lastPinchTime (gstate exampleGallery) > 1000"
    by (simp add: example_facts frameAt_facts)
  have s: "\<forall>f\<in>set [frameAt pinchCursor 5000]. actionablePinch (frame_cursor f)"
    "\<forall>f\<in>set [frameAt openCursor 5500]. \<not> actionablePinch (frame_cursor f)"
    "\<forall>f\<in>set [frameAt pinchCursor 6000]. actionablePinch (frame_cursor f)"
    by (simp_all add: frameAt_facts cursor_facts)
  have h3: "\<not> frame_now (frameAt pinchCursor 6000) - frame_now (frameAt pinchCursor 5000) > 1000"
    "frame_now (frameAt pinchCursor 6000) - frame_now (frameAt pinchCursor 5000) \<ge> 1000"
    by (simp_all add: frameAt_facts)
  from two_rising_edges[OF example_facts(1,2) h1 s]
  have "\<exists>w' calls. frames exampleGallery
          [frameAt pinchCursor 5000, frameAt openCursor 5500, frameAt pinchCursor 6000] = Inr (w', calls)
         \<and> length calls = 1"
    using h3(1) by (simp only: append_Cons append_Nil if_False)
  then show ?thesis using h3(2) by blast
qed

lemma pinchLogic_fire:
  "snd (pinchLogic c now h gs) =
     (if actionablePinch c \<and> \<not> isPinching gs \<and> now - lastPinchTime gs > 1000
      then Some (if h \<noteq> - 1 then h else activeIndex gs) else None)"
  by (simp add: pinchLogic_def)

lemma pinchLogic_after_scroll:
  "snd (pinchLogic c now h (scrollLogic d c gs)) = snd (pinchLogic c now h gs)"
  by (simp add: pinchLogic_def scrollLogic_def)

lemma frameEffects_pinchLogic:
  "onItemSelect (frameEffects inp w) =
     snd (pinchLogic (frame_cursor inp) (frame_now inp) (hoveredOf inp w) (gstate w))"
  by (simp add: frameEffects_def pinchOf_def pinchLogic_after_scroll)

lemma withActive_facts:
  "length (meshes (withActive k exampleGallery)) \<le> length (meshStates (withActive k exampleGallery))"
  "\<not> isPinching (gstate (withActive k exampleGallery))"
  "lastPinchTime (gstate (withActive k exampleGallery)) = 0"
  "activeIndex (gstate (withActive k exampleGallery)) = k"
  by (simp_all add: withActive_def example_facts)

lemma hitFrame_facts:
  "frame_now hitFrame = 5000"
  "frame_cursor hitFrame = pinchCursor"
  "selectedIndex hitFrame = None"
  by (simp_all add: hitFrame_def frameAt_def)

text \<open>
  C3. The pinch step, given any hovered index h of at least -1 (the only values the
  hover step produces), calls the selection callback exactly on a qualifying pinch, and
  then with h if h is at least 0 and with the active index of the state otherwise. A
  frame passes the hovered index of its hover step to the pinch step and calls the
  callback with the result; so a qualifying pinch with hovered index -1 and active
  index 3 calls it with 3.
\<close>

theorem C3_target_resolution:
  assumes h: "- 1 \<le> h" and len: "length (meshes w) \<le> length (meshStates w)"
  shows "(snd (pinchLogic c now h gs) \<noteq> None \<longleftrightarrow>
            actionablePinch c \<and> \<not> isPinching gs \<and> now - lastPinchTime gs > 1000)
       \<and> (\<forall>k. snd (pinchLogic c now h gs) = Some k \<longrightarrow>
              k = (if 0 \<le> h then h else activeIndex gs))
       \<and> (actionablePinch c \<and> \<not> isPinching gs \<and> now - lastPinchTime gs > 1000 \<longrightarrow>
              snd (pinchLogic c now h gs) = Some (if 0 \<le> h then h else activeIndex gs))
       \<and> (\<exists>w' eff. update inp w = Inr (w', eff)
             \<and> - 1 \<le> hoveredOf inp w
             \<and> onItemSelect eff =
                 snd (pinchLogic (frame_cursor inp) (frame_now inp) (hoveredOf inp w) (gstate w))
             \<and> (actionablePinch (frame_cursor inp) \<and> \<not> isPinching (gstate w)
                  \<and> frame_now inp - lastPinchTime (gstate w) > 1000
                  \<and> hoveredOf inp w = - 1 \<and> activeIndex (gstate w) = 3
                \<longrightarrow> onItemSelect eff = Some 3))"
proof -
  have e: "(h \<noteq> - 1) = (0 \<le> h)" using h by linarith
  have f: "snd (pinchLogic c now h gs) =
     (if actionablePinch c \<and> \<not> isPinching gs \<and> now - lastPinchTime gs > 1000
      then Some (if 0 \<le> h then h else activeIndex gs) else None)"
    unfolding pinchLogic_fire e ..
  have 1: "snd (pinchLogic c now h gs) \<noteq> None \<longleftrightarrow>
            actionablePinch c \<and> \<not> isPinching gs \<and> now - lastPinchTime gs > 1000"
    unfolding f by simp
  have 2: "\<forall>k. snd (pinchLogic c now h gs) = Some k \<longrightarrow>
              k = (if 0 \<le> h then h else activeIndex gs)"
    unfolding f by (simp split: if_splits)
  have 3: "actionablePinch c \<and> \<not> isPinching gs \<and> now - lastPinchTime gs > 1000 \<longrightarrow>
              snd (pinchLogic c now h gs) = Some (if 0 \<le> h then h else activeIndex gs)"
    unfolding f by simp
  have s: "onItemSelect (frameEffects inp w) = Some 3"
    if "actionablePinch (frame_cursor inp) \<and> \<not> isPinching (gstate w)
          \<and> frame_now inp - lastPinchTime (gstate w) > 1000
          \<and> hoveredOf inp w = - 1 \<and> activeIndex (gstate w) = 3"
    using that by (simp add: frameEffects_fire)
  have 4: "\<exists>w' eff. update inp w = Inr (w', eff)
             \<and> - 1 \<le> hoveredOf inp w
             \<and> onItemSelect eff =
                 snd (pinchLogic (frame_cursor inp) (frame_now inp) (hoveredOf inp w) (gstate w))
             \<and> (actionablePinch (frame_cursor inp) \<and> \<not> isPinching (gstate w)
                  \<and> frame_now inp - lastPinchTime (gstate w) > 1000
                  \<and> hoveredOf inp w = - 1 \<and> activeIndex (gstate w) = 3
                \<longrightarrow> onItemSelect eff = Some 3)"
    using update_eq[OF len, of inp] hoveredOf_range[of inp w] frameEffects_pinchLogic[of inp w] s
    by blast
  from 1 2 3 4 show ?thesis by blast
qed

theorem C3_target_resolution_witness:
  "(- 1 :: int) \<le> 2
   \<and> length (meshes (withActive 3 exampleGallery)) \<le> length (meshStates (withActive 3 exampleGallery))
   \<and> actionablePinch pinchCursor
   \<and> \<not> isPinching (gstate (withActive 3 exampleGallery))
   \<and> 5000 - lastPinchTime (gstate (withActive 3 exampleGallery)) > 1000
   \<and> activeIndex (gstate (withActive 3 exampleGallery)) = 3
   \<and> snd (pinchLogic pinchCursor 5000 2 (gstate (withActive 3 exampleGallery))) = Some 2
   \<and> snd (pinchLogic pinchCursor 5000 (- 1) (gstate (withActive 3 exampleGallery))) = Some 3
   \<and> hoveredOf (frameAt pinchCursor 5000) (withActive 3 exampleGallery) = - 1
   \<and> (\<exists>w' eff. update (frameAt pinchCursor 5000) (withActive 3 exampleGallery) = Inr (w', eff)
         \<and> onItemSelect eff = Some 3)"
proof -
  define gs where "gs = gstate (withActive 3 exampleGallery)"
  have r: "(- 1 :: int) \<le> 2" "(- 1 :: int) \<le> - 1" by simp_all
  note len = withActive_facts(1)[of 3]
  note t2 = C3_target_resolution[OF r(1) len, of pinchCursor 5000 gs "frameAt pinchCursor 5000"]
  note t1 = C3_target_resolution[OF r(2) len, of pinchCursor 5000 gs "frameAt pinchCursor 5000"]
  have q: "actionablePinch pinchCursor" "\<not> isPinching gs" "5000 - lastPinchTime gs > 1000"
    "activeIndex gs = 3"
    unfolding gs_def by (simp_all add: cursor_facts withActive_facts)
  have a2: "snd (pinchLogic pinchCursor 5000 2 gs) = Some (if (0::int) \<le> 2 then 2 else activeIndex gs)"
    using t2 q by blast
  have a1: "snd (pinchLogic pinchCursor 5000 (- 1) gs) = Some (if (0::int) \<le> - 1 then - 1 else activeIndex gs)"
    using t1 q by blast
  have b2: "snd (pinchLogic pinchCursor 5000 2 gs) = Some 2" using a2 by simp
  have b1: "snd (pinchLogic pinchCursor 5000 (- 1) gs) = Some 3" using a1 q(4) by simp
  have "cursor_isPinching (frame_cursor (frameAt pinchCursor 5000))"
    by (simp add: frameAt_facts pinchCursor_def)
  then have h3: "hoveredOf (frameAt pinchCursor 5000) (withActive 3 exampleGallery) = - 1"
    by (rule hoveredOf_pinching)
  have p: "actionablePinch (frame_cursor (frameAt pinchCursor 5000))"
    "frame_now (frameAt pinchCursor 5000) - lastPinchTime (gstate (withActive 3 exampleGallery)) > 1000"
    by (simp_all add: frameAt_facts cursor_facts withActive_facts)
  from t2 have "\<exists>w' eff. update (frameAt pinchCursor 5000) (withActive 3 exampleGallery) = Inr (w', eff)
         \<and> (actionablePinch (frame_cursor (frameAt pinchCursor 5000))
               \<and> \<not> isPinching (gstate (withActive 3 exampleGallery))
               \<and> frame_now (frameAt pinchCursor 5000) - lastPinchTime (gstate (withActive 3 exampleGallery)) > 1000
               \<and> hoveredOf (frameAt pinchCursor 5000) (withActive 3 exampleGallery) = - 1
               \<and> activeIndex (gstate (withActive 3 exampleGallery)) = 3
             \<longrightarrow> onItemSelect eff = Some 3)"
    by auto
  then have u: "\<exists>w' eff. update (frameAt pinchCursor 5000) (withActive 3 exampleGallery) = Inr (w', eff)
         \<and> onItemSelect eff = Some 3"
    using p h3 withActive_facts(2,4)[of 3] by auto
  show ?thesis
    using r(1) len q[unfolded gs_def] b2[unfolded gs_def] b1[unfolded gs_def] h3 u by blast
qed

text \<open>
  C4. On a frame that calls the selection callback the cursor is pinching, so the
  hovered index is -1 whatever the ray cast reports, and the callback receives the
  active index of the state.
\<close>

theorem C4_fire_never_hovered:
  assumes len: "length (meshes w) \<le> length (meshStates w)"
  shows "\<exists>w' eff. update inp w = Inr (w', eff)
           \<and> (onItemSelect eff \<noteq> None \<longrightarrow>
                 cursor_isPinching (frame_cursor inp) \<and> hoveredOf inp w = - 1
                 \<and> onItemSelect eff = Some (activeIndex (gstate w)))"
proof (intro exI conjI impI)
  show "update inp w = Inr (frameState inp w, frameEffects inp w)" by (rule update_eq[OF len])
next
  assume f: "onItemSelect (frameEffects inp w) \<noteq> None"
  then show p: "cursor_isPinching (frame_cursor inp)"
    by (simp add: frameEffects_fire actionablePinch_def split: if_splits)
  then show h: "hoveredOf inp w = - 1" by (rule hoveredOf_pinching)
  show "onItemSelect (frameEffects inp w) = Some (activeIndex (gstate w))"
    using f h by (simp add: frameEffects_fire split: if_splits)
qed

theorem C4_fire_never_hovered_witness:
  "length (meshes exampleGallery) \<le> length (meshStates exampleGallery)
   \<and> frame_hit hitFrame 2 = Some 1
   \<and> (\<exists>w' eff. update hitFrame exampleGallery = Inr (w', eff)
         \<and> onItemSelect eff \<noteq> None
         \<and> hoveredOf hitFrame exampleGallery = - 1
         \<and> onItemSelect eff = Some (activeIndex (gstate exampleGallery)))"
proof -
  from C4_fire_never_hovered[OF example_facts(1), of hitFrame]
  obtain w' eff where u: "update hitFrame exampleGallery = Inr (w', eff)"
    and i: "onItemSelect eff \<noteq> None \<longrightarrow>
              cursor_isPinching (frame_cursor hitFrame) \<and> hoveredOf hitFrame exampleGallery = - 1
              \<and> onItemSelect eff = Some (activeIndex (gstate exampleGallery))"
    by blast
  have "eff = frameEffects hitFrame exampleGallery"
    using u update_eq[OF example_facts(1), of hitFrame] by simp
  then have f: "onItemSelect eff \<noteq> None"
    by (simp add: frameEffects_fire hitFrame_facts cursor_facts example_facts)
  have "frame_hit hitFrame 2 = Some 1" by (simp add: hitFrame_def)
  then show ?thesis using u i f example_facts(1) by blast
qed

section \<open>Swipe to close\<close>

lemma swipeEffect_eq:
  "swipeEffect cursor now a =
     ((if swipeFires cursor now a then a\<lparr>selectedItemIndex := None, swipeCooldown := now\<rparr> else a)
        \<lparr>lastY := cursor_y cursor\<rparr>,
      swipeFires cursor now a)"
  by (simp add: swipeEffect_def swipeFires_def Let_def)

lemma swipes_Cons:
  "snd (swipes a ((c, now) # rest)) =
     (if snd (swipeEffect c now a) then 1 else 0) + snd (swipes (fst (swipeEffect c now a)) rest)"
  by (simp add: case_prod_beta)

lemma swipes_closed:
  assumes "selectedItemIndex a = None"
  shows "snd (swipes a rest) = 0"
  using assms
proof (induction rest arbitrary: a)
  case Nil
  show ?case by simp
next
  case (Cons s rest)
  obtain c now where s: "s = (c, now)" by (cases s)
  have n: "\<not> swipeFires c now a" using Cons.prems by (simp add: swipeFires_def)
  have "selectedItemIndex (fst (swipeEffect c now a)) = None"
    using Cons.prems n by (simp add: swipeEffect_eq)
  from Cons.IH[OF this] show ?case
    unfolding s swipes_Cons using n by (simp add: swipeEffect_eq)
qed

text \<open>
  C10 (amended). The swipe effect calls for a close exactly when the detail view is
  open, the cursor is visible, the vertical coordinate exceeds the stored previous one
  by more than 0.03, and more than 800 ms have passed since the last close (the
  comparison is strict). Every run stores the current vertical coordinate as the
  previous one, fired or not; a close stores its time and clears the selection. So a
  sample repeating the coordinate of the one before never fires, whatever the rest of
  the state, and a run of samples that starts with a firing one fires exactly once.
\<close>

theorem C10_swipe_to_close:
  "(snd (swipeEffect cursor now a) \<longleftrightarrow>
      selectedItemIndex a \<noteq> None \<and> cursor_isVisible cursor
      \<and> cursor_y cursor - lastY a > 0.03 \<and> now - swipeCooldown a > 800)
   \<and> lastY (fst (swipeEffect cursor now a)) = cursor_y cursor
   \<and> swipeCooldown (fst (swipeEffect cursor now a)) =
       (if snd (swipeEffect cursor now a) then now else swipeCooldown a)
   \<and> selectedItemIndex (fst (swipeEffect cursor now a)) =
       (if snd (swipeEffect cursor now a) then None else selectedItemIndex a)
   \<and> (cursor_y cursor2 = cursor_y cursor \<longrightarrow>
        \<not> snd (swipeEffect cursor2 now2 ((fst (swipeEffect cursor now a))\<lparr>selectedItemIndex := s\<rparr>)))
   \<and> (snd (swipeEffect cursor now a) \<longrightarrow> snd (swipes a ((cursor, now) # rest)) = 1)"
proof (intro conjI impI)
  show "snd (swipeEffect cursor now a) \<longleftrightarrow>
      selectedItemIndex a \<noteq> None \<and> cursor_isVisible cursor
      \<and> cursor_y cursor - lastY a > 0.03 \<and> now - swipeCooldown a > 800"
    by (simp add: swipeEffect_eq swipeFires_def)
  show "lastY (fst (swipeEffect cursor now a)) = cursor_y cursor"
    by (simp add: swipeEffect_eq)
  show "swipeCooldown (fst (swipeEffect cursor now a)) =
       (if snd (swipeEffect cursor now a) then now else swipeCooldown a)"
    by (simp add: swipeEffect_eq)
  show "selectedItemIndex (fst (swipeEffect cursor now a)) =
       (if snd (swipeEffect cursor now a) then None else selectedItemIndex a)"
    by (simp add: swipeEffect_eq)
next
  assume "cursor_y cursor2 = cursor_y cursor"
  then show "\<not> snd (swipeEffect cursor2 now2 ((fst (swipeEffect cursor now a))\<lparr>selectedItemIndex := s\<rparr>))"
    by (simp add: swipeEffect_eq swipeFires_def)
next
  assume f: "snd (swipeEffect cursor now a)"
  then have "selectedItemIndex (fst (swipeEffect cursor now a)) = None"
    by (simp add: swipeEffect_eq)
  then have "snd (swipes (fst (swipeEffect cursor now a)) rest) = 0" by (rule swipes_closed)
  then show "snd (swipes a ((cursor, now) # rest)) = 1"
    unfolding swipes_Cons using f by simp
qed

theorem C10_swipe_to_close_witness:
  "snd (swipeEffect swipeCursor 2000 exampleApp)
   \<and> cursor_y swipeCursor - lastY exampleApp > 0.03
   \<and> lastY (fst (swipeEffect swipeCursor 2000 exampleApp)) = 0.54
   \<and> \<not> snd (swipeEffect swipeCursor 3000
              ((fst (swipeEffect swipeCursor 2000 exampleApp))\<lparr>selectedItemIndex := Some 3\<rparr>))
   \<and> snd (swipes exampleApp [(swipeCursor, 2000), (swipeCursor, 2016), (swipeCursor, 2033)]) = 1"
proof -
  note t = C10_swipe_to_close[of swipeCursor 2000 exampleApp swipeCursor 3000 "Some 3"
      "[(swipeCursor, 2016), (swipeCursor, 2033)]"]
  have h: "selectedItemIndex exampleApp \<noteq> None \<and> cursor_isVisible swipeCursor
      \<and> cursor_y swipeCursor - lastY exampleApp > 0.03 \<and> 2000 - swipeCooldown exampleApp > 800"
    by (simp add: exampleApp_def swipeCursor_def)
  have y: "cursor_y swipeCursor = 0.54" by (simp add: swipeCursor_def)
  from t h have f: "snd (swipeEffect swipeCursor 2000 exampleApp)" by blast
  from t have l: "lastY (fst (swipeEffect swipeCursor 2000 exampleApp)) = 0.54" unfolding y by blast
  show ?thesis using t h f l by blast
qed

theorem C10_exactly_800ms_counterexample:
  "selectedItemIndex exampleApp \<noteq> None \<and> cursor_isVisible swipeCursor
   \<and> cursor_y swipeCursor - lastY exampleApp > 0.03
   \<and> 1800 - swipeCooldown exampleApp \<ge> 800
   \<and> \<not> snd (swipeEffect swipeCursor 1800 exampleApp)"
  by (simp add: swipeEffect_eq swipeFires_def exampleApp_def swipeCursor_def)

section \<open>Scroll speed\<close>

lemma powr_three_fifths_pow5:
  fixes b :: real
  assumes "0 < b"
  shows "(b powr 0.6) powr 5 = b ^ 3"
proof -
  have "(b powr 0.6) powr 5 = b powr (0.6 * 5)" by (simp only: powr_powr)
  also have "\<dots> = b powr 3" by simp
  also have "\<dots> = b ^ 3" using assms by simp
  finally show ?thesis .
qed

lemma powr_lower:
  fixes b l :: real
  assumes b: "0 < b" and l: "0 \<le> l" and c: "l ^ 5 < b ^ 3"
  shows "l < b powr 0.6"
proof (rule ccontr)
  assume "\<not> l < b powr 0.6"
  then have "b powr 0.6 \<le> l" by simp
  then have "(b powr 0.6) powr 5 \<le> l powr 5" by (intro powr_mono2) simp_all
  moreover have "l powr 5 = l ^ 5" using l by (cases "l = 0") simp_all
  ultimately show False using c powr_three_fifths_pow5[OF b] by simp
qed

lemma powr_upper:
  fixes b u :: real
  assumes b: "0 < b" and u: "0 < u" and c: "b ^ 3 < u ^ 5"
  shows "b powr 0.6 < u"
proof (rule ccontr)
  assume "\<not> b powr 0.6 < u"
  then have "u \<le> b powr 0.6" by simp
  then have "u powr 5 \<le> (b powr 0.6) powr 5" using u by (intro powr_mono2) simp_all
  moreover have "u powr 5 = u ^ 5" using u by simp
  ultimately show False using c powr_three_fifths_pow5[OF b] by simp
qed

lemma five_sevenths_bounds: "0.815 < (5 / 7 :: real) powr 0.6 \<and> (5 / 7 :: real) powr 0.6 < 0.82"
proof
  show "0.815 < (5 / 7 :: real) powr 0.6" by (rule powr_lower) (simp_all add: power_divide)
  show "(5 / 7 :: real) powr 0.6 < 0.82" by (rule powr_upper) (simp_all add: power_divide)
qed

lemma targetSpeed_far_right:
  assumes "cursor_isVisible c" "cursor_x c = 0.9"
  shows "targetSpeed False c = (5 / 7) powr 0.6 * 0.2"
  unfolding targetSpeed_def Let_def assms(2) using assms(1) by simp

lemma targetSpeed_closed:
  assumes "cursor_isVisible c"
  shows "targetSpeed False c =
           (if \<bar>cursor_x c - 0.5\<bar> \<le> 0.15 then 0
            else sgn (cursor_x c - 0.5) * 0.2 * (((\<bar>cursor_x c - 0.5\<bar> - 0.15) / 0.35) powr 0.6))"
proof -
  consider (right) "cursor_x c > 0.65" | (left) "cursor_x c < 0.35" | (mid) "0.35 \<le> cursor_x c" "cursor_x c \<le> 0.65"
    by linarith
  then show ?thesis
  proof cases
    case right
    then have "\<bar>cursor_x c - 0.5\<bar> - 0.15 = cursor_x c - 0.65" "sgn (cursor_x c - 0.5) = 1"
      "\<not> \<bar>cursor_x c - 0.5\<bar> \<le> 0.15" by simp_all
    then show ?thesis using assms right by (simp add: targetSpeed_def)
  next
    case left
    then have "\<bar>cursor_x c - 0.5\<bar> - 0.15 = 0.35 - cursor_x c" "sgn (cursor_x c - 0.5) = - 1"
      "\<not> \<bar>cursor_x c - 0.5\<bar> \<le> 0.15" by simp_all
    then show ?thesis using assms left by (simp add: targetSpeed_def)
  next
    case mid
    then have "\<bar>cursor_x c - 0.5\<bar> \<le> 0.15" unfolding abs_le_iff by simp
    then show ?thesis using assms mid by (simp add: targetSpeed_def)
  qed
qed

lemma farRight_facts:
  "cursor_isVisible farRightCursor"
  "cursor_x farRightCursor = 0.9"
  by (simp_all add: farRightCursor_def)

lemma far_right_value:
  assumes "cursor_isVisible c" "cursor_x c = 0.9"
  shows "0.163 < targetSpeed False c \<and> targetSpeed False c < 0.164"
  unfolding targetSpeed_far_right[OF assms] using five_sevenths_bounds by simp

text \<open>
  C2 (amended). With the cursor visible and no detail view open, the scroll speed is 0
  when the cursor is within 0.15 of the horizontal centre, and otherwise the sign of
  (x - 0.5) times 0.2 times ((|x - 0.5| - 0.15) / 0.35) to the power 0.6. At x = 0.9
  it is 0.2 times ((0.9 - 0.65) / 0.35) to the power 0.6, which lies between 0.163
  and 0.164 and is positive. Such a frame adds the speed to the scroll target once.
\<close>

theorem C2_target_speed:
  assumes len: "length (meshes w) \<le> length (meshStates w)"
  shows "(cursor_isVisible c \<longrightarrow>
            targetSpeed False c =
              (if \<bar>cursor_x c - 0.5\<bar> \<le> 0.15 then 0
               else sgn (cursor_x c - 0.5) * 0.2 * (((\<bar>cursor_x c - 0.5\<bar> - 0.15) / 0.35) powr 0.6)))
       \<and> (cursor_isVisible c \<and> cursor_x c = 0.9 \<longrightarrow>
            targetSpeed False c = 0.2 * (((0.9 - 0.65) / 0.35) powr 0.6)
            \<and> 0.163 < targetSpeed False c \<and> targetSpeed False c < 0.164)
       \<and> (cursor_isVisible (frame_cursor inp) \<and> selectedIndex inp = None \<longrightarrow>
            (\<exists>w' eff. update inp w = Inr (w', eff)
               \<and> scrollTarget (gstate w') =
                   scrollTarget (gstate w) + targetSpeed False (frame_cursor inp)))"
proof (intro conjI impI)
  assume "cursor_isVisible c"
  then show "targetSpeed False c =
              (if \<bar>cursor_x c - 0.5\<bar> \<le> 0.15 then 0
               else sgn (cursor_x c - 0.5) * 0.2 * (((\<bar>cursor_x c - 0.5\<bar> - 0.15) / 0.35) powr 0.6))"
    by (rule targetSpeed_closed)
next
  assume h: "cursor_isVisible c \<and> cursor_x c = 0.9"
  then show "targetSpeed False c = 0.2 * (((0.9 - 0.65) / 0.35) powr 0.6)"
    by (simp add: targetSpeed_far_right)
  from h show "0.163 < targetSpeed False c" using far_right_value by blast
  from h show "targetSpeed False c < 0.164" using far_right_value by blast
next
  assume "cursor_isVisible (frame_cursor inp) \<and> selectedIndex inp = None"
  then have "scrollTarget (gstate (frameState inp w)) =
               scrollTarget (gstate w) + targetSpeed False (frame_cursor inp)"
    by (simp add: frameState_scroll)
  then show "\<exists>w' eff. update inp w = Inr (w', eff)
               \<and> scrollTarget (gstate w') =
                   scrollTarget (gstate w) + targetSpeed False (frame_cursor inp)"
    using update_eq[OF len] by blast
qed

theorem C2_target_speed_witness:
  "length (meshes exampleGallery) \<le> length (meshStates exampleGallery)
   \<and> cursor_isVisible farRightCursor \<and> cursor_x farRightCursor = 0.9
   \<and> selectedIndex (frameAt farRightCursor 5000) = None
   \<and> 0.163 < targetSpeed False farRightCursor \<and> targetSpeed False farRightCursor < 0.164
   \<and> (\<exists>w' eff. update (frameAt farRightCursor 5000) exampleGallery = Inr (w', eff)
         \<and> scrollTarget (gstate w') =
             scrollTarget (gstate exampleGallery) + targetSpeed False farRightCursor)"
proof -
  note t = C2_target_speed[OF example_facts(1), of farRightCursor "frameAt farRightCursor 5000"]
  have h: "cursor_isVisible (frame_cursor (frameAt farRightCursor 5000))"
    "selectedIndex (frameAt farRightCursor 5000) = None"
    by (simp_all add: frameAt_facts farRight_facts)
  from t h have "\<exists>w' eff. update (frameAt farRightCursor 5000) exampleGallery = Inr (w', eff)
         \<and> scrollTarget (gstate w') =
             scrollTarget (gstate exampleGallery)
               + targetSpeed False (frame_cursor (frameAt farRightCursor 5000))"
    by blast
  then have u: "\<exists>w' eff. update (frameAt farRightCursor 5000) exampleGallery = Inr (w', eff)
         \<and> scrollTarget (gstate w') =
             scrollTarget (gstate exampleGallery) + targetSpeed False farRightCursor"
    by (simp only: frameAt_facts)
  show ?thesis using t farRight_facts h(2) u example_facts(1) by blast
qed

theorem C2_value_at_09_counterexample:
  "cursor_isVisible farRightCursor \<and> cursor_x farRightCursor = 0.9
   \<and> 0.025 < \<bar>targetSpeed False farRightCursor - 0.138\<bar>"
  using far_right_value[OF farRight_facts] farRight_facts by simp

section \<open>The empty item list and the layout\<close>

lemma emptyGallery_facts: "meshes emptyGallery = []"
  by (simp add: emptyGallery_def itemsChanged_def mountEffect_def)

text \<open>
  C9 (amended). With an empty item list the step is computed as 2 pi divided by zero,
  which in JavaScript is Infinity and raises nothing; it is never read, because the
  loop over the meshes has no iteration. The frame routine returns normally, places
  no item, leaves the mesh states and the active index as they were, and the hovered
  index is -1 whatever the ray cast would report.
\<close>

theorem C9_empty_item_list:
  assumes "meshes w = []"
  shows "angleStep (length (meshes w)) = PosInfinity
       \<and> intersectBounds (frame_hit inp) (length (meshes w)) = []
       \<and> hoveredOf inp w = - 1
       \<and> (\<exists>w' eff. update inp w = Inr (w', eff)
             \<and> meshes w' = [] \<and> meshStates w' = meshStates w
             \<and> activeIndex (gstate w') = activeIndex (gstate w))"
proof (intro conjI)
  have len: "length (meshes w) \<le> length (meshStates w)" using assms by simp
  show "angleStep (length (meshes w)) = PosInfinity" using assms by (simp add: angleStep_def)
  show i: "intersectBounds (frame_hit inp) (length (meshes w)) = []"
    using assms by (simp add: intersectBounds_def)
  show "hoveredOf inp w = - 1" using i by (simp add: hoveredOf_def hoverLogic_def)
  have "meshes (frameState inp w) = []"
    using assms frameState_lengths(1)[of inp w] by simp
  moreover have "meshStates (frameState inp w) = meshStates w"
    using assms by (simp add: frameState_def meshStatesAfter_done)
  moreover have "activeIndex (gstate (frameState inp w)) = activeIndex (gstate w)"
    using assms by (simp add: frameState_def)
  ultimately show "\<exists>w' eff. update inp w = Inr (w', eff)
             \<and> meshes w' = [] \<and> meshStates w' = meshStates w
             \<and> activeIndex (gstate w') = activeIndex (gstate w)"
    using update_eq[OF len] by blast
qed

theorem C9_empty_item_list_witness:
  "meshes emptyGallery = []
   \<and> frame_hit hoverFrame 0 = Some 1
   \<and> hoveredOf hoverFrame exampleGallery = 0
   \<and> hoveredOf hoverFrame emptyGallery = - 1
   \<and> (\<exists>w' eff. update hoverFrame emptyGallery = Inr (w', eff) \<and> meshes w' = [])"
proof -
  note t = C9_empty_item_list[OF emptyGallery_facts, of hoverFrame]
  have a: "frame_hit hoverFrame 0 = Some 1" by (simp add: hoverFrame_def)
  have "intersectBounds (frame_hit hoverFrame) 4 = [0, 1, 2, 3]"
    by (simp add: intersectBounds_def hoverFrame_def upt_rec)
  then have b: "hoveredOf hoverFrame exampleGallery = 0"
    by (simp add: hoveredOf_def hoverLogic_def example_facts hoverFrame_def frameAt_def openCursor_def)
  show ?thesis using t a b emptyGallery_facts by blast
qed

theorem C9_divides_by_zero_counterexample:
  "length (meshes emptyGallery) = 0 \<and> angleStep (length (meshes emptyGallery)) = PosInfinity"
  by (simp add: emptyGallery_facts angleStep_def)

text \<open>
  C7. After a frame, item i of N sits at angle i (2 pi / N) minus the new scroll
  position: its x is R sin(angle), its z is R cos(angle) - R plus its smoothed depth
  offset, and its facing rotation is the angle, with R = 6; at angle 0 the item is at
  x = 0 and z equal to its depth offset.
\<close>

theorem C7_layout:
  assumes len: "length (meshes w) \<le> length (meshStates w)" and i: "i < length (meshes w)"
  shows "\<exists>w' eff. update inp w = Inr (w', eff)
           \<and> position_x (meshes w' ! i) =
               radius * sin (itemAngle (length (meshes w)) i (scrollCurrent (gstate w')))
           \<and> position_z (meshes w' ! i) =
               (radius * cos (itemAngle (length (meshes w)) i (scrollCurrent (gstate w'))) - radius)
                 + zOffset (meshStates w' ! i)
           \<and> rotation_y (meshes w' ! i) = itemAngle (length (meshes w)) i (scrollCurrent (gstate w'))
           \<and> zOffset (meshStates w' ! i) =
               lerp 0.1 (targetZOffsetOf (selectedIndex inp) (hoveredOf inp w) i) (zOffset (meshStates w ! i))
           \<and> radius = 6
           \<and> (itemAngle (length (meshes w)) i (scrollCurrent (gstate w')) = 0 \<longrightarrow>
                position_x (meshes w' ! i) = 0 \<and> position_z (meshes w' ! i) = zOffset (meshStates w' ! i))"
proof -
  define a where "a = itemAngle (length (meshes w)) i (scrollCurrent (gstate (frameState inp w)))"
  have a': "real i * stepOf (length (meshes w)) - scrollCurrent (gstate (frameState inp w)) = a"
    by (simp add: a_def itemAngle_def stepOf_def)
  note ms = frameState_item(1)[OF i len, of inp]
  note m = frameState_item(2)[OF i len, of inp]
  have x: "position_x (meshes (frameState inp w) ! i) = radius * sin a"
    unfolding m by (simp add: meshAfter_def a')
  have z: "position_z (meshes (frameState inp w) ! i) =
             (radius * cos a - radius) + zOffset (meshStates (frameState inp w) ! i)"
    unfolding m ms by (simp add: meshAfter_def a')
  have r: "rotation_y (meshes (frameState inp w) ! i) = a"
    unfolding m by (simp add: meshAfter_def a')
  have o: "zOffset (meshStates (frameState inp w) ! i) =
             lerp 0.1 (targetZOffsetOf (selectedIndex inp) (hoveredOf inp w) i) (zOffset (meshStates w ! i))"
    unfolding ms by (simp add: meshStateAfter_def lerp_def)
  have f: "position_x (meshes (frameState inp w) ! i) = 0
           \<and> position_z (meshes (frameState inp w) ! i) = zOffset (meshStates (frameState inp w) ! i)"
    if "a = 0"
    using x z that by simp
  show ?thesis
    using update_eq[OF len, of inp] x z r o f radius_def unfolding a_def by blast
qed

lemma example_scroll:
  "scrollCurrent (gstate exampleGallery) = 0"
  "scrollTarget (gstate exampleGallery) = 0"
  by (simp_all add: exampleGallery_def itemsChanged_def mountEffect_def resetEffect_def
        initialGallery_def)

lemma openCursor_speed: "targetSpeed False openCursor = 0"
  by (simp add: targetSpeed_def openCursor_def)

theorem C7_layout_witness:
  "length (meshes exampleGallery) \<le> length (meshStates exampleGallery)
   \<and> 0 < length (meshes exampleGallery)
   \<and> (\<exists>w' eff. update (frameAt openCursor 5000) exampleGallery = Inr (w', eff)
         \<and> itemAngle (length (meshes exampleGallery)) 0 (scrollCurrent (gstate w')) = 0
         \<and> rotation_y (meshes w' ! 0) = 0
         \<and> position_x (meshes w' ! 0) = 0
         \<and> position_z (meshes w' ! 0) = zOffset (meshStates w' ! 0))"
proof -
  have i: "0 < length (meshes exampleGallery)" by (simp add: example_facts)
  from C7_layout[OF example_facts(1) i, of "frameAt openCursor 5000"]
  obtain w' eff where u: "update (frameAt openCursor 5000) exampleGallery = Inr (w', eff)"
    and r: "rotation_y (meshes w' ! 0) =
              itemAngle (length (meshes exampleGallery)) 0 (scrollCurrent (gstate w'))"
    and z: "itemAngle (length (meshes exampleGallery)) 0 (scrollCurrent (gstate w')) = 0 \<longrightarrow>
              position_x (meshes w' ! 0) = 0 \<and> position_z (meshes w' ! 0) = zOffset (meshStates w' ! 0)"
    by blast
  have w: "w' = frameState (frameAt openCursor 5000) exampleGallery"
    using u update_eq[OF example_facts(1), of "frameAt openCursor 5000"] by simp
  have "scrollCurrent (gstate w') = 0"
    unfolding w by (simp add: frameState_scroll frameAt_facts example_scroll openCursor_speed lerp_def)
  then have a: "itemAngle (length (meshes exampleGallery)) 0 (scrollCurrent (gstate w')) = 0"
    by (simp add: itemAngle_def)
  show ?thesis using example_facts(1) i u a r z by auto
qed

section \<open>The active index\<close>

lemma wrap_id: assumes "- pi < a" "a \<le> pi" shows "wrapAngle a = a"
  using atan2_wrap[of a] atan2_sin_cos[OF assms] by simp

lemma activeAfter_front:
  "activeAfter sel (stepOf n) sc i act = (if sel = None \<and> frontTest n sc i then int i else act)"
  by (simp add: activeAfter_def itemAngle_def stepOf_def frontTest_def)

lemma fold_active_none:
  assumes "\<forall>i\<in>set is. \<not> (sel = None \<and> frontTest n sc i)"
  shows "fold (activeAfter sel (stepOf n) sc) is act = act"
  using assms
proof (induction "is" arbitrary: act)
  case Nil
  show ?case by simp
next
  case (Cons x xs)
  have "x \<in> set (x # xs)" by simp
  with Cons.prems have "\<not> (sel = None \<and> frontTest n sc x)" by blast
  then have "activeAfter sel (stepOf n) sc x act = act" by (auto simp add: activeAfter_front)
  moreover have "set xs \<subseteq> set (x # xs)" by auto
  with Cons.prems have "\<forall>i\<in>set xs. \<not> (sel = None \<and> frontTest n sc i)" by blast
  ultimately show ?case using Cons.IH by simp
qed

lemma fold_active_unique:
  assumes "i \<in> set is"
    and "sel = None \<and> frontTest n sc i"
    and "\<forall>j\<in>set is. sel = None \<and> frontTest n sc j \<longrightarrow> j = i"
  shows "fold (activeAfter sel (stepOf n) sc) is act = int i"
  using assms
proof (induction "is" arbitrary: act)
  case Nil
  then show ?case by simp
next
  case (Cons x xs)
  have u: "\<forall>j\<in>set xs. sel = None \<and> frontTest n sc j \<longrightarrow> j = i"
    using Cons.prems(3) by simp
  show ?case
  proof (cases "i \<in> set xs")
    case True
    from Cons.IH[OF True Cons.prems(2) u] show ?thesis by simp
  next
    case False
    then have x: "x = i" using Cons.prems(1) by simp
    have "activeAfter sel (stepOf n) sc i act = int i"
      using Cons.prems(2) by (simp add: activeAfter_front)
    moreover have "\<forall>j\<in>set xs. \<not> (sel = None \<and> frontTest n sc j)"
      using u False by blast
    ultimately show ?thesis using fold_active_none[of xs sel n sc "int i"] by (simp add: x)
  qed
qed

lemma front_unique:
  assumes "i < n" "j < n" "frontTest n s i" "frontTest n s j"
  shows "j = i"
proof -
  have n0: "0 < n" using assms(1) by simp
  have ci: "\<bar>wrapAngle (itemAngle n i s)\<bar> < pi * 2 / real n / 2"
    and cj: "\<bar>wrapAngle (itemAngle n j s)\<bar> < pi * 2 / real n / 2"
    using assms(3,4) by (simp_all only: frontTest_def stepOf_def)
  from active_unique[OF n0 assms(1,2) ci cj] show ?thesis by simp
qed

lemma front_others:
  assumes "i < n" "j < n" "i \<noteq> j" "\<bar>wrapAngle (itemAngle n i s)\<bar> \<le> stepOf n / 2"
  shows "stepOf n / 2 \<le> \<bar>wrapAngle (itemAngle n j s)\<bar>"
proof -
  have n0: "0 < n" using assms(1) by simp
  have ci: "\<bar>wrapAngle (itemAngle n i s)\<bar> \<le> pi * 2 / real n / 2"
    using assms(4) by (simp only: stepOf_def)
  from others_outside[OF n0 assms(1,2,3) ci] show ?thesis by (simp only: stepOf_def)
qed

lemma frame_active_inside:
  assumes sel: "selectedIndex inp = None" and i: "i < length (meshes w)"
    and c: "frontTest (length (meshes w)) (scrollCurrent (gstate (frameState inp w))) i"
  shows "activeIndex (gstate (frameState inp w)) = int i"
proof -
  define n where "n = length (meshes w)"
  define s where "s = scrollCurrent (gstate (frameState inp w))"
  have i': "i < n" using i unfolding n_def .
  have c': "frontTest n s i" using c unfolding n_def s_def .
  have 1: "i \<in> set [0..<n]" using i' by simp
  have 2: "selectedIndex inp = None \<and> frontTest n s i" using sel c' by simp
  have 3: "\<forall>j\<in>set [0..<n]. selectedIndex inp = None \<and> frontTest n s j \<longrightarrow> j = i"
    using front_unique[OF i' _ c'] by simp
  from fold_active_unique[OF 1 2 3]
  show ?thesis unfolding frameState_activeIndex n_def s_def .
qed

lemma frame_active_smallest:
  assumes i: "i < n" and j: "j < n" and c: "frontTest n s i"
  shows "\<bar>wrapAngle (itemAngle n i s)\<bar> \<le> \<bar>wrapAngle (itemAngle n j s)\<bar>"
proof (cases "i = j")
  case True
  then show ?thesis by simp
next
  case False
  have c': "\<bar>wrapAngle (itemAngle n i s)\<bar> < stepOf n / 2" using c by (simp only: frontTest_def)
  then have "\<bar>wrapAngle (itemAngle n i s)\<bar> \<le> stepOf n / 2" by linarith
  from front_others[OF i j False this] c' show ?thesis by linarith
qed

lemma frame_active_none:
  assumes "\<forall>i<length (meshes w). \<not> frontTest (length (meshes w)) (scrollCurrent (gstate (frameState inp w))) i"
  shows "activeIndex (gstate (frameState inp w)) = activeIndex (gstate w)"
  unfolding frameState_activeIndex using assms by (intro fold_active_none) simp

lemma frame_active_detail:
  assumes "selectedIndex inp \<noteq> None"
  shows "activeIndex (gstate (frameState inp w)) = activeIndex (gstate w)"
  unfolding frameState_activeIndex using assms by (intro fold_active_none) simp

lemma boundary_none_inside:
  assumes i: "i < n" and b: "\<bar>wrapAngle (itemAngle n i s)\<bar> = stepOf n / 2" and j: "j < n"
  shows "\<not> frontTest n s j"
proof (cases "i = j")
  case True
  then show ?thesis using b by (simp add: frontTest_def)
next
  case False
  have "\<bar>wrapAngle (itemAngle n i s)\<bar> \<le> stepOf n / 2" using b by linarith
  from front_others[OF i j False this] show ?thesis unfolding frontTest_def by linarith
qed

lemma frame_active_boundary:
  assumes "i < length (meshes w)"
    and "\<bar>wrapAngle (itemAngle (length (meshes w)) i (scrollCurrent (gstate (frameState inp w))))\<bar>
           = stepOf (length (meshes w)) / 2"
  shows "activeIndex (gstate (frameState inp w)) = activeIndex (gstate w)"
  using boundary_none_inside[OF assms] by (intro frame_active_none) blast

lemma tenGallery_facts:
  "length (meshes tenGallery) = 10"
  "length (meshStates tenGallery) = 10"
  "scrollCurrent (gstate tenGallery) = 0"
  "scrollTarget (gstate tenGallery) = 0"
  by (simp_all add: tenGallery_def tenItems_def itemsChanged_def mountEffect_def resetEffect_def
        initialGallery_def)

lemma scrolledTo_facts:
  "length (meshes (scrolledTo s w)) = length (meshes w)"
  "length (meshStates (scrolledTo s w)) = length (meshStates w)"
  "scrollCurrent (gstate (scrolledTo s w)) = s"
  "scrollTarget (gstate (scrolledTo s w)) = s"
  "activeIndex (gstate (scrolledTo s w)) = activeIndex (gstate w)"
  by (simp_all add: scrolledTo_def)

lemma withActive_fields:
  "length (meshes (withActive k w)) = length (meshes w)"
  "length (meshStates (withActive k w)) = length (meshStates w)"
  "scrollCurrent (gstate (withActive k w)) = scrollCurrent (gstate w)"
  "scrollTarget (gstate (withActive k w)) = scrollTarget (gstate w)"
  "activeIndex (gstate (withActive k w)) = k"
  by (simp_all add: withActive_def)

lemma rest_frame_scroll:
  assumes "scrollCurrent (gstate w) = s" "scrollTarget (gstate w) = s"
  shows "scrollCurrent (gstate (frameState (frameAt openCursor t) w)) = s"
  using assms by (simp add: frameState_scroll frameAt_facts openCursor_speed lerp_def)

text \<open>
  C6 (amended). After a frame with no detail view open and N >= 1 items, if some item's
  angle wrapped into (-pi, pi] is strictly within half a step of 0, that item is the
  active one, and no item has a wrapped angle of smaller absolute value. If no item
  passes this strict test, which is the case whenever some item's wrapped angle is
  exactly plus or minus half a step, the active index keeps the value it had before
  the frame. With N = 10, scroll position 0 makes item 0 active and scroll position one
  step makes item 1 active. With a detail view open the active index is not changed.
  The normalised angle the code computes with atan2 is the wrapped angle.
\<close>

theorem C6_active_index:
  assumes len: "length (meshes w) \<le> length (meshStates w)" and n: "0 < length (meshes w)"
  shows "\<exists>w' eff. update inp w = Inr (w', eff)
     \<and> (selectedIndex inp \<noteq> None \<longrightarrow> activeIndex (gstate w') = activeIndex (gstate w))
     \<and> (selectedIndex inp = None \<longrightarrow>
          (\<forall>i<length (meshes w).
              \<bar>wrapAngle (itemAngle (length (meshes w)) i (scrollCurrent (gstate w')))\<bar>
                < stepOf (length (meshes w)) / 2 \<longrightarrow>
              activeIndex (gstate w') = int i
              \<and> (\<forall>j<length (meshes w).
                    \<bar>wrapAngle (itemAngle (length (meshes w)) i (scrollCurrent (gstate w')))\<bar>
                      \<le> \<bar>wrapAngle (itemAngle (length (meshes w)) j (scrollCurrent (gstate w')))\<bar>))
        \<and> ((\<forall>i<length (meshes w).
               \<not> \<bar>wrapAngle (itemAngle (length (meshes w)) i (scrollCurrent (gstate w')))\<bar>
                   < stepOf (length (meshes w)) / 2) \<longrightarrow>
             activeIndex (gstate w') = activeIndex (gstate w))
        \<and> ((\<exists>i<length (meshes w).
               \<bar>wrapAngle (itemAngle (length (meshes w)) i (scrollCurrent (gstate w')))\<bar>
                 = stepOf (length (meshes w)) / 2) \<longrightarrow>
             activeIndex (gstate w') = activeIndex (gstate w))
        \<and> (length (meshes w) = 10 \<and> scrollCurrent (gstate w') = 0 \<longrightarrow> activeIndex (gstate w') = 0)
        \<and> (length (meshes w) = 10 \<and> scrollCurrent (gstate w') = stepOf 10 \<longrightarrow>
             activeIndex (gstate w') = 1))
     \<and> (\<forall>a. atan2 (sin a) (cos a) = wrapAngle a \<and> - pi < wrapAngle a \<and> wrapAngle a \<le> pi)"
proof -
  define N where "N = length (meshes w)"
  define w' where "w' = frameState inp w"
  define s where "s = scrollCurrent (gstate w')"
  have u: "update inp w = Inr (w', frameEffects inp w)" unfolding w'_def by (rule update_eq[OF len])
  have d: "activeIndex (gstate w') = activeIndex (gstate w)" if "selectedIndex inp \<noteq> None"
    unfolding w'_def using that by (rule frame_active_detail)
  have inside: "activeIndex (gstate w') = int i
        \<and> (\<forall>j<N. \<bar>wrapAngle (itemAngle N i s)\<bar> \<le> \<bar>wrapAngle (itemAngle N j s)\<bar>)"
    if sel: "selectedIndex inp = None" and i: "i < N" and c: "\<bar>wrapAngle (itemAngle N i s)\<bar> < stepOf N / 2"
    for i
  proof -
    have f: "frontTest N s i" using c by (simp only: frontTest_def)
    have "activeIndex (gstate w') = int i"
      unfolding w'_def using sel i f unfolding N_def s_def w'_def by (rule frame_active_inside)
    moreover have "\<forall>j<N. \<bar>wrapAngle (itemAngle N i s)\<bar> \<le> \<bar>wrapAngle (itemAngle N j s)\<bar>"
      using frame_active_smallest[OF i _ f] by blast
    ultimately show ?thesis by blast
  qed
  have none: "activeIndex (gstate w') = activeIndex (gstate w)"
    if "\<forall>i<N. \<not> \<bar>wrapAngle (itemAngle N i s)\<bar> < stepOf N / 2"
  proof -
    have "\<forall>i<length (meshes w). \<not> frontTest (length (meshes w)) (scrollCurrent (gstate (frameState inp w))) i"
      using that unfolding frontTest_def N_def s_def w'_def .
    then show ?thesis unfolding w'_def by (rule frame_active_none)
  qed
  have boundary: "activeIndex (gstate w') = activeIndex (gstate w)"
    if "\<exists>i<N. \<bar>wrapAngle (itemAngle N i s)\<bar> = stepOf N / 2"
  proof -
    from that obtain i where "i < N" "\<bar>wrapAngle (itemAngle N i s)\<bar> = stepOf N / 2" by blast
    then show ?thesis unfolding N_def s_def w'_def by (rule frame_active_boundary)
  qed
  have sp: "0 < stepOf 10 / 2" by (simp add: stepOf_def)
  have rest: "activeIndex (gstate w') = 0" if sel: "selectedIndex inp = None" and h: "N = 10 \<and> s = 0"
  proof -
    have "itemAngle N 0 s = 0" using h by (simp add: itemAngle_def)
    then have "\<bar>wrapAngle (itemAngle N 0 s)\<bar> < stepOf N / 2"
      using sp h by (simp add: wrap_id)
    moreover have "0 < N" using h by simp
    ultimately show ?thesis using inside[OF sel] by fastforce
  qed
  have one: "activeIndex (gstate w') = 1" if sel: "selectedIndex inp = None" and h: "N = 10 \<and> s = stepOf 10"
  proof -
    have "itemAngle N 1 s = 0" using h by (simp add: itemAngle_def stepOf_def)
    then have "\<bar>wrapAngle (itemAngle N 1 s)\<bar> < stepOf N / 2"
      using sp h by (simp add: wrap_id)
    moreover have "1 < N" using h by simp
    ultimately show ?thesis using inside[OF sel] by fastforce
  qed
  have at: "\<forall>a. atan2 (sin a) (cos a) = wrapAngle a \<and> - pi < wrapAngle a \<and> wrapAngle a \<le> pi"
    using atan2_wrap wrap_range by blast
  have body: "update inp w = Inr (w', frameEffects inp w)
     \<and> (selectedIndex inp \<noteq> None \<longrightarrow> activeIndex (gstate w') = activeIndex (gstate w))
     \<and> (selectedIndex inp = None \<longrightarrow>
          (\<forall>i<N. \<bar>wrapAngle (itemAngle N i s)\<bar> < stepOf N / 2 \<longrightarrow>
              activeIndex (gstate w') = int i
              \<and> (\<forall>j<N. \<bar>wrapAngle (itemAngle N i s)\<bar> \<le> \<bar>wrapAngle (itemAngle N j s)\<bar>))
        \<and> ((\<forall>i<N. \<not> \<bar>wrapAngle (itemAngle N i s)\<bar> < stepOf N / 2) \<longrightarrow>
             activeIndex (gstate w') = activeIndex (gstate w))
        \<and> ((\<exists>i<N. \<bar>wrapAngle (itemAngle N i s)\<bar> = stepOf N / 2) \<longrightarrow>
             activeIndex (gstate w') = activeIndex (gstate w))
        \<and> (N = 10 \<and> s = 0 \<longrightarrow> activeIndex (gstate w') = 0)
        \<and> (N = 10 \<and> s = stepOf 10 \<longrightarrow> activeIndex (gstate w') = 1))
     \<and> (\<forall>a. atan2 (sin a) (cos a) = wrapAngle a \<and> - pi < wrapAngle a \<and> wrapAngle a \<le> pi)"
    using u d inside none boundary rest one at by blast
  show ?thesis
    by (rule exI[of _ w'], rule exI[of _ "frameEffects inp w"]) (rule body[unfolded N_def s_def])
qed

lemma boundaryGallery_facts:
  "length (meshes (boundaryGallery k)) = 4"
  "length (meshStates (boundaryGallery k)) = 4"
  "scrollCurrent (gstate (boundaryGallery k)) = pi / 4"
  "scrollTarget (gstate (boundaryGallery k)) = pi / 4"
  "activeIndex (gstate (boundaryGallery k)) = k"
  by (simp_all add: boundaryGallery_def withActive_fields scrolledTo_facts example_facts)

lemma quarter_boundary:
  "\<bar>wrapAngle (itemAngle 4 0 (pi / 4))\<bar> = stepOf 4 / 2"
  "\<bar>wrapAngle (itemAngle 4 1 (pi / 4))\<bar> = stepOf 4 / 2"
proof -
  have a: "itemAngle 4 0 (pi / 4) = - (pi / 4)" "itemAngle 4 1 (pi / 4) = pi / 4"
    by (simp_all add: itemAngle_def)
  have p: "0 < pi" by (rule pi_gt_zero)
  have "wrapAngle (- (pi / 4)) = - (pi / 4)" by (rule wrap_id) (use p in linarith)+
  moreover have "wrapAngle (pi / 4) = pi / 4" by (rule wrap_id) (use p in linarith)+
  ultimately have w: "wrapAngle (itemAngle 4 0 (pi / 4)) = - (pi / 4)"
    "wrapAngle (itemAngle 4 1 (pi / 4)) = pi / 4"
    unfolding a by blast+
  have h: "stepOf 4 / 2 = pi / 4" by (simp add: stepOf_def)
  show "\<bar>wrapAngle (itemAngle 4 0 (pi / 4))\<bar> = stepOf 4 / 2"
    "\<bar>wrapAngle (itemAngle 4 1 (pi / 4))\<bar> = stepOf 4 / 2"
    unfolding w h using p by simp_all
qed

lemma boundary_frame:
  "update (frameAt openCursor 5000) (boundaryGallery k) =
     Inr (frameState (frameAt openCursor 5000) (boundaryGallery k),
          frameEffects (frameAt openCursor 5000) (boundaryGallery k))"
  "scrollCurrent (gstate (frameState (frameAt openCursor 5000) (boundaryGallery k))) = pi / 4"
  "activeIndex (gstate (frameState (frameAt openCursor 5000) (boundaryGallery k))) = k"
proof -
  show "update (frameAt openCursor 5000) (boundaryGallery k) =
     Inr (frameState (frameAt openCursor 5000) (boundaryGallery k),
          frameEffects (frameAt openCursor 5000) (boundaryGallery k))"
    by (rule update_eq) (simp add: boundaryGallery_facts)
  show s: "scrollCurrent (gstate (frameState (frameAt openCursor 5000) (boundaryGallery k))) = pi / 4"
    by (rule rest_frame_scroll) (simp_all add: boundaryGallery_facts)
  have "activeIndex (gstate (frameState (frameAt openCursor 5000) (boundaryGallery k)))
          = activeIndex (gstate (boundaryGallery k))"
    by (rule frame_active_boundary[of 0]) (simp_all add: boundaryGallery_facts s quarter_boundary)
  then show "activeIndex (gstate (frameState (frameAt openCursor 5000) (boundaryGallery k))) = k"
    by (simp add: boundaryGallery_facts)
qed

theorem C6_active_index_witness:
  "length (meshes (scrolledTo (stepOf 10) tenGallery)) \<le> length (meshStates (scrolledTo (stepOf 10) tenGallery))
   \<and> 0 < length (meshes (scrolledTo (stepOf 10) tenGallery))
   \<and> selectedIndex (frameAt openCursor 5000) = None
   \<and> length (meshes (scrolledTo (stepOf 10) tenGallery)) = 10
   \<and> (\<exists>w' eff. update (frameAt openCursor 5000) (scrolledTo (stepOf 10) tenGallery) = Inr (w', eff)
         \<and> scrollCurrent (gstate w') = stepOf 10
         \<and> activeIndex (gstate w') = 1)"
proof -
  define W where "W = scrolledTo (stepOf 10) tenGallery"
  define f where "f = frameAt openCursor 5000"
  have len: "length (meshes W) \<le> length (meshStates W)" and n: "0 < length (meshes W)"
    and ten: "length (meshes W) = 10"
    unfolding W_def by (simp_all add: scrolledTo_facts tenGallery_facts)
  have sel: "selectedIndex f = None" unfolding f_def by (simp add: frameAt_facts)
  have "\<exists>w' eff. update f W = Inr (w', eff)
          \<and> (selectedIndex f = None \<longrightarrow>
                (length (meshes W) = 10 \<and> scrollCurrent (gstate w') = stepOf 10 \<longrightarrow>
                   activeIndex (gstate w') = 1))"
    using C6_active_index[OF len n, of f]
    apply (elim exE conjE)
    apply (rule exI, rule exI, rule conjI, assumption)
    apply blast
    done
  then obtain w' eff where u: "update f W = Inr (w', eff)"
    and one: "selectedIndex f = None \<longrightarrow>
                (length (meshes W) = 10 \<and> scrollCurrent (gstate w') = stepOf 10 \<longrightarrow>
                   activeIndex (gstate w') = 1)"
    by auto
  have "w' = frameState f W" using u update_eq[OF len, of f] by simp
  then have s: "scrollCurrent (gstate w') = stepOf 10"
    unfolding f_def W_def by (simp add: rest_frame_scroll scrolledTo_facts)
  have "activeIndex (gstate w') = 1" using one sel ten s by blast
  then show ?thesis using len n sel ten u s unfolding W_def f_def by blast
qed

theorem C6_boundary_keeps_previous_counterexample:
  "\<bar>wrapAngle (itemAngle 4 0 (pi / 4))\<bar> = stepOf 4 / 2
   \<and> \<bar>wrapAngle (itemAngle 4 1 (pi / 4))\<bar> = stepOf 4 / 2
   \<and> length (meshes (boundaryGallery 0)) = 4 \<and> length (meshes (boundaryGallery 1)) = 4
   \<and> (\<exists>w0 e0 w1 e1.
         update (frameAt openCursor 5000) (boundaryGallery 0) = Inr (w0, e0)
       \<and> update (frameAt openCursor 5000) (boundaryGallery 1) = Inr (w1, e1)
       \<and> scrollCurrent (gstate w0) = pi / 4 \<and> scrollCurrent (gstate w1) = pi / 4
       \<and> activeIndex (gstate w0) = 0 \<and> activeIndex (gstate w1) = 1)"
  using quarter_boundary boundaryGallery_facts(1) boundary_frame[of 0] boundary_frame[of 1]
  by blast

section \<open>The active index across a change of the item list\<close>

lemma itemsChanged_fields:
  "activeIndex (gstate (itemsChanged items w)) = activeIndex (gstate w)"
  "isPinching (gstate (itemsChanged items w)) = isPinching (gstate w)"
  "lastPinchTime (gstate (itemsChanged items w)) = lastPinchTime (gstate w)"
  "length (meshes (itemsChanged items w)) = length items"
  "length (meshStates (itemsChanged items w)) = length items"
  "scrollCurrent (gstate (itemsChanged items w)) = 0"
  "scrollTarget (gstate (itemsChanged items w)) = 0"
  by (simp_all add: itemsChanged_def mountEffect_def resetEffect_def)

lemma initialGallery_fields:
  "activeIndex (gstate (initialGallery items)) = 0"
  "\<not> isPinching (gstate (initialGallery items))"
  "lastPinchTime (gstate (initialGallery items)) = 0"
  by (simp_all add: initialGallery_def)

lemma rightEdge_facts:
  "targetSpeed False rightEdgeCursor = 0.2"
  "cursor_isVisible rightEdgeCursor"
  "\<not> actionablePinch rightEdgeCursor"
  by (simp_all add: targetSpeed_def rightEdgeCursor_def actionablePinch_def)

lemma fold_active_range:
  "fold (activeAfter sel st sc) is act = act
   \<or> (\<exists>i\<in>set is. fold (activeAfter sel st sc) is act = int i)"
proof (induction "is" arbitrary: act)
  case Nil
  show ?case by simp
next
  case (Cons x xs)
  define a where "a = activeAfter sel st sc x act"
  have c: "a = act \<or> a = int x" unfolding a_def by (simp add: activeAfter_def)
  have f: "fold (activeAfter sel st sc) (x # xs) act = fold (activeAfter sel st sc) xs a"
    unfolding a_def by simp
  have s: "set (x # xs) = insert x (set xs)" by simp
  show ?case unfolding f s using Cons.IH[of a] c by blast
qed

lemma activeIndex_valid_preserved:
  assumes "0 \<le> activeIndex (gstate w)" "activeIndex (gstate w) < int (length (meshes w))"
  shows "0 \<le> activeIndex (gstate (frameState inp w))
       \<and> activeIndex (gstate (frameState inp w)) < int (length (meshes (frameState inp w)))"
  using assms fold_active_range[of "selectedIndex inp" "stepOf (length (meshes w))"
      "scrollCurrent (gstate (frameState inp w))" "[0..<length (meshes w)]" "activeIndex (gstate w)"]
  by (auto simp add: frameState_activeIndex frameState_lengths)

lemma hundredGallery_facts:
  "length (meshes hundredGallery) = 100"
  "length (meshStates hundredGallery) = 100"
  "scrollCurrent (gstate hundredGallery) = 0"
  "scrollTarget (gstate hundredGallery) = 0"
  "\<not> isPinching (gstate hundredGallery)"
  "lastPinchTime (gstate hundredGallery) = 0"
  by (simp_all add: hundredGallery_def hundredItems_def itemsChanged_fields initialGallery_fields)

lemma front_item_one: "frontTest 100 (29 / 500) 1"
proof -
  have p: "2 \<le> pi" "pi < 4" using pi_ge_two pi_half_less_two by simp_all
  have a: "itemAngle 100 1 (29 / 500) = pi / 50 - 29 / 500" by (simp add: itemAngle_def)
  have r: "- pi < pi / 50 - 29 / 500" "pi / 50 - 29 / 500 \<le> pi" using p by linarith+
  have w: "wrapAngle (pi / 50 - 29 / 500) = pi / 50 - 29 / 500" using r by (rule wrap_id)
  have h: "stepOf 100 / 2 = pi / 100" by (simp add: stepOf_def)
  have "\<bar>pi / 50 - 29 / 500\<bar> < pi / 100" using p by linarith
  then show ?thesis unfolding frontTest_def a w h .
qed

lemma scroll_two_frames:
  fixes w1 w2 :: gallery
  assumes w1: "w1 = frameState (frameAt rightEdgeCursor 1000) hundredGallery"
    and w2: "w2 = frameState (frameAt rightEdgeCursor 1016) w1"
  shows "update (frameAt rightEdgeCursor 1000) hundredGallery =
           Inr (w1, frameEffects (frameAt rightEdgeCursor 1000) hundredGallery)"
    and "update (frameAt rightEdgeCursor 1016) w1 = Inr (w2, frameEffects (frameAt rightEdgeCursor 1016) w1)"
    and "length (meshes w2) = 100"
    and "activeIndex (gstate w2) = 1"
    and "\<not> isPinching (gstate w2)"
    and "lastPinchTime (gstate w2) = 0"
proof -
  have l0: "length (meshes hundredGallery) \<le> length (meshStates hundredGallery)"
    by (simp add: hundredGallery_facts)
  show "update (frameAt rightEdgeCursor 1000) hundredGallery =
          Inr (w1, frameEffects (frameAt rightEdgeCursor 1000) hundredGallery)"
    unfolding w1 by (rule update_eq[OF l0])
  have m1: "length (meshes w1) = 100" "length (meshStates w1) = 100"
    unfolding w1 by (simp_all add: frameState_lengths hundredGallery_facts)
  then have l1: "length (meshes w1) \<le> length (meshStates w1)" by simp
  show "update (frameAt rightEdgeCursor 1016) w1 = Inr (w2, frameEffects (frameAt rightEdgeCursor 1016) w1)"
    unfolding w2 by (rule update_eq[OF l1])
  show m2: "length (meshes w2) = 100" unfolding w2 by (simp add: frameState_lengths m1)
  have s1: "scrollTarget (gstate w1) = 0.2" "scrollCurrent (gstate w1) = 0.02"
    unfolding w1
    by (simp_all add: frameState_scroll frameAt_facts rightEdge_facts hundredGallery_facts lerp_def)
  have s2: "scrollCurrent (gstate (frameState (frameAt rightEdgeCursor 1016) w1)) = 29 / 500"
    by (simp add: frameState_scroll frameAt_facts rightEdge_facts s1 lerp_def)
  have sel: "selectedIndex (frameAt rightEdgeCursor 1016) = None" by (simp add: frameAt_facts)
  have i: "1 < length (meshes w1)" by (simp add: m1)
  have ft: "frontTest (length (meshes w1))
              (scrollCurrent (gstate (frameState (frameAt rightEdgeCursor 1016) w1))) 1"
    unfolding m1 s2 by (rule front_item_one)
  have "activeIndex (gstate w2) = int 1"
    unfolding w2 using sel i ft by (rule frame_active_inside)
  then show "activeIndex (gstate w2) = 1" by simp
  show "\<not> isPinching (gstate w2)"
    unfolding w2 by (simp add: frameState_pinch frameAt_facts rightEdge_facts)
  have "lastPinchTime (gstate w1) = 0"
    unfolding w1 by (simp add: frameState_pinch frameAt_facts rightEdge_facts hundredGallery_facts)
  then show "lastPinchTime (gstate w2) = 0"
    unfolding w2 by (simp add: frameState_pinch frameAt_facts rightEdge_facts)
qed

text \<open>
  C5, the failing input. A gallery of 100 items is scrolled for two frames with the
  cursor at the right edge, which makes item 1 the active one. The item list is then
  replaced by a single item. The reset sets the scroll position to 0 and rebuilds the
  mesh states but leaves the active index at 1, which is no index of the new list;
  a pinch on the next frame passes this index to the selection callback.
\<close>

theorem C5_stale_active_index_after_reset:
  "\<exists>w1 e1 w2 e2.
      update (frameAt rightEdgeCursor 1000) hundredGallery = Inr (w1, e1)
    \<and> update (frameAt rightEdgeCursor 1016) w1 = Inr (w2, e2)
    \<and> activeIndex (gstate w2) = 1 \<and> length (meshes w2) = 100
    \<and> length (meshes (itemsChanged [''new.png''] w2)) = 1
    \<and> activeIndex (gstate (itemsChanged [''new.png''] w2)) = 1
    \<and> \<not> activeIndex (gstate (itemsChanged [''new.png''] w2))
          < int (length (meshes (itemsChanged [''new.png''] w2)))
    \<and> (\<exists>w3 e3. update (frameAt pinchCursor 5000) (itemsChanged [''new.png''] w2) = Inr (w3, e3)
          \<and> onItemSelect e3 = Some 1)"
proof -
  define w1 where "w1 = frameState (frameAt rightEdgeCursor 1000) hundredGallery"
  define w2 where "w2 = frameState (frameAt rightEdgeCursor 1016) w1"
  define w3 where "w3 = itemsChanged [''new.png''] w2"
  note f = scroll_two_frames[OF w1_def w2_def]
  have a3: "activeIndex (gstate w3) = 1" "length (meshes w3) = 1" "length (meshStates w3) = 1"
    "\<not> isPinching (gstate w3)" "lastPinchTime (gstate w3) = 0"
    unfolding w3_def using f(4,5,6) by (simp_all add: itemsChanged_fields)
  have l3: "length (meshes w3) \<le> length (meshStates w3)" using a3 by simp
  have h: "hoveredOf (frameAt pinchCursor 5000) w3 = - 1"
    by (rule hoveredOf_pinching) (simp add: frameAt_facts pinchCursor_def)
  have e3: "onItemSelect (frameEffects (frameAt pinchCursor 5000) w3) = Some 1"
    by (simp add: frameEffects_fire frameAt_facts cursor_facts a3 h)
  have u3: "\<exists>w e. update (frameAt pinchCursor 5000) w3 = Inr (w, e) \<and> onItemSelect e = Some 1"
    using update_eq[OF l3, of "frameAt pinchCursor 5000"] e3 by blast
  have n: "\<not> activeIndex (gstate w3) < int (length (meshes w3))" using a3 by simp
  show ?thesis
    apply (rule exI[of _ w1], rule exI[of _ "frameEffects (frameAt rightEdgeCursor 1000) hundredGallery"])
    apply (rule exI[of _ w2], rule exI[of _ "frameEffects (frameAt rightEdgeCursor 1016) w1"])
    using f(1,2,3,4) a3(1,2) n u3 unfolding w3_def
    apply (intro conjI)
    apply assumption+
    done
qed

end
